theory Spec2Isabelle
  imports Complex_Main "HOL-Library.AList"
begin

section \<open>Data model (connection.py)\<close>

text \<open>
  A \<^verbatim>\<open>Datagram\<close> object. \<^verbatim>\<open>time\<close> is a \<^verbatim>\<open>datetime.datetime\<close> and \<^verbatim>\<open>RTT\<close> a
  \<^verbatim>\<open>datetime.timedelta\<close> or \<^verbatim>\<open>None\<close>; both have microsecond resolution and are kept
  here as whole numbers of microseconds. The plugin \<^verbatim>\<open>connection_type.py\<close> reads the
  same fields under the names \<^verbatim>\<open>sent_by_client\<close>, \<^verbatim>\<open>payload_len\<close> and \<^verbatim>\<open>rtt\<close>.
\<close>

record datagram =
  sentByClient :: bool
  time :: int
  seqNb :: int
  totalLen :: int
  payloadLen :: int
  ack :: int
  RTT :: "int option"

text \<open>
  Of a \<^verbatim>\<open>Connection\<close> the analysers read the datagram list only (and a number used in
  log lines); the endpoint fields are not part of the model.
\<close>

record connection =
  nb :: int
  datagrams :: "datagram list"

section \<open>RTT estimation (Connection.compute\_RTT)\<close>

subsection \<open>Step 1: the acknowledgment-matching loop\<close>

text \<open>
  \<^verbatim>\<open>last_acking\<close> is the dictionary \<^verbatim>\<open>{True: ..., False: ...}\<close> of pending ackers. The
  loop body reads only \<^verbatim>\<open>seqNb\<close> and \<^verbatim>\<open>time\<close> of a pending acker, which are never
  assigned, so the dictionary holds the datagram's value.
\<close>

type_synonym last_acking = "bool \<Rightarrow> datagram option"

definition acked_by :: "last_acking \<Rightarrow> datagram \<Rightarrow> datagram option" where
  "acked_by la d =
     (case la (\<not> sentByClient d) of
        None \<Rightarrow> None
      | Some a \<Rightarrow> if seqNb d < seqNb a then Some a else None)"

definition match_datagram :: "last_acking \<Rightarrow> datagram \<Rightarrow> datagram" where
  "match_datagram la d =
     (case acked_by la d of
        None \<Rightarrow> d
      | Some a \<Rightarrow> d\<lparr>RTT := Some (time a - time d)\<rparr>)"

definition match_pending :: "last_acking \<Rightarrow> datagram \<Rightarrow> last_acking" where
  "match_pending la d =
     (let la1 = (case acked_by la d of
                   None \<Rightarrow> la
                 | Some a \<Rightarrow> la(\<not> sentByClient d := None))
      in if ack d > - 1 then la1(sentByClient d := Some (match_datagram la d)) else la1)"

fun match_loop :: "last_acking \<Rightarrow> datagram list \<Rightarrow> datagram list" where
  "match_loop la [] = []"
| "match_loop la (d # ds) = match_datagram la d # match_loop (match_pending la d) ds"

text \<open>The state of \<^verbatim>\<open>last_acking\<close> after the loop has run over a sequence.\<close>

fun pending_after :: "last_acking \<Rightarrow> datagram list \<Rightarrow> last_acking" where
  "pending_after la [] = la"
| "pending_after la (d # ds) = pending_after (match_pending la d) ds"

definition no_acking :: last_acking where
  "no_acking = (\<lambda>way. None)"

definition exact_matching :: "datagram list \<Rightarrow> datagram list" where
  "exact_matching ds = rev (match_loop no_acking (rev ds))"

subsection \<open>Step 2: estimating the other RTTs\<close>

text \<open>
  The lists \<^verbatim>\<open>empty_RTTs[way]\<close> hold references to datagram objects of
  \<^verbatim>\<open>self.datagrams\<close>; a reference is the position of the object in the list (every
  position holds its own object, as the capture layer builds them), and
  \<^verbatim>\<open>d.RTT = v\<close> is an update at that position.
\<close>

record estimate_state =
  dgs :: "datagram list"
  last_RTT :: "bool \<Rightarrow> int option"
  empty_RTTs :: "bool \<Rightarrow> nat list"

definition set_RTT :: "nat \<Rightarrow> int \<Rightarrow> datagram list \<Rightarrow> datagram list" where
  "set_RTT p v ds = ds[p := (ds ! p)\<lparr>RTT := Some v\<rparr>]"

text \<open>\<^verbatim>\<open>for d in empty_RTTs[way]: d.RTT = v\<close>\<close>

fun recopy :: "nat list \<Rightarrow> int \<Rightarrow> datagram list \<Rightarrow> datagram list" where
  "recopy [] v ds = ds"
| "recopy (p # ps) v ds = recopy ps v (set_RTT p v ds)"

text \<open>\<^verbatim>\<open>i = 1; for d in empty_RTTs[way]: d.RTT = last + i * diff; i += 1\<close>\<close>

fun interpolate :: "nat list \<Rightarrow> int \<Rightarrow> int \<Rightarrow> int \<Rightarrow> datagram list \<Rightarrow> datagram list" where
  "interpolate [] l diff i ds = ds"
| "interpolate (p # ps) l diff i ds =
     interpolate ps l diff (i + 1) (set_RTT p (l + i * diff) ds)"

text \<open>
  The body of the forward loop for the datagram at position \<open>j\<close>. Under Python 2.7
  \<^verbatim>\<open>diff /= 1 + len(...)\<close> on a \<^verbatim>\<open>timedelta\<close> is a floor division of its microseconds.
\<close>

definition estimate_step :: "nat \<Rightarrow> estimate_state \<Rightarrow> estimate_state" where
  "estimate_step j st =
     (let d = dgs st ! j; way = sentByClient d in
      case RTT d of
        None \<Rightarrow> st\<lparr>empty_RTTs := (empty_RTTs st)(way := empty_RTTs st way @ [j])\<rparr>
      | Some r \<Rightarrow>
          (let st1 =
             (if empty_RTTs st way \<noteq> [] then
                (case last_RTT st way of
                   None \<Rightarrow> st\<lparr>dgs := recopy (empty_RTTs st way) r (dgs st)\<rparr>
                 | Some l \<Rightarrow>
                     st\<lparr>dgs := interpolate (empty_RTTs st way) l
                                  ((r - l) div (1 + int (length (empty_RTTs st way)))) 1
                                  (dgs st)\<rparr>)
                \<lparr>empty_RTTs := (empty_RTTs st)(way := [])\<rparr>
              else st)
           in st1\<lparr>last_RTT := (last_RTT st1)(way := Some r)\<rparr>))"

text \<open>Step 2 (cont.): the datagrams after the last known RTT of a direction.\<close>

definition finish_way :: "bool \<Rightarrow> estimate_state \<Rightarrow> estimate_state" where
  "finish_way way st =
     (case last_RTT st way of
        None \<Rightarrow> st
      | Some l \<Rightarrow> st\<lparr>dgs := recopy (empty_RTTs st way) l (dgs st)\<rparr>)"

definition estimate_init :: "datagram list \<Rightarrow> estimate_state" where
  "estimate_init ds = \<lparr>dgs = ds, last_RTT = (\<lambda>way. None), empty_RTTs = (\<lambda>way. [])\<rparr>"

definition estimate_loop :: "nat \<Rightarrow> datagram list \<Rightarrow> estimate_state" where
  "estimate_loop j ds = fold estimate_step [0..<j] (estimate_init ds)"

definition estimate_others :: "datagram list \<Rightarrow> datagram list" where
  "estimate_others ds =
     dgs (finish_way False (finish_way True (estimate_loop (length ds) ds)))"

definition compute_RTT_datagrams :: "datagram list \<Rightarrow> datagram list" where
  "compute_RTT_datagrams ds = estimate_others (exact_matching ds)"

definition compute_RTT :: "connection \<Rightarrow> connection" where
  "compute_RTT c = c\<lparr>datagrams := compute_RTT_datagrams (datagrams c)\<rparr>"

section \<open>Stepping-stone detection (stepping\_stone\_detection\_serverside.py)\<close>

text \<open>
  Exceptions are values: a method returns \<open>Inl\<close> of the exception it raises. The calls
  to the logger are the only effect of the methods besides their result; a method
  returns, next to its result, the lines it has logged, in order. Python floats are
  modelled by exact rationals, \<^verbatim>\<open>timedelta.total_seconds()\<close> included.
\<close>

datatype error = AttributeError | ZeroDivisionError | IndexError | KeyError

datatype log_entry =
    Info string
  | Debug string
  | Debug_connect int
  | Debug_is_stepping_stone bool
  | Debug_similarity rat
  | Debug_n_modulus rat

definition total_seconds :: "int \<Rightarrow> rat" where
  "total_seconds us = rat_of_int us / 1000000"

definition float_div :: "rat \<Rightarrow> rat \<Rightarrow> error + rat" where
  "float_div x y = (if y = 0 then Inl ZeroDivisionError else Inr (x / y))"

definition IAT_RTT_DIFFERENT :: rat where "IAT_RTT_DIFFERENT = 1 / 100"
definition CLOSE_ENOUGH :: rat where "CLOSE_ENOUGH = 1 / 2"
definition N_MOD_DIST :: rat where "N_MOD_DIST = 98 / 100"
definition MIN_SIZE :: rat where "MIN_SIZE = 1 / 10"
definition IN_GROUP :: int where "IN_GROUP = 3"

text \<open>The object \<^verbatim>\<open>SteppingStoneDetectionServerSideConnection\<close> and its constructor.\<close>

record ssdssc =
  ssd_connection :: connection
  ssd_datagrams :: "datagram list"

definition ssd_init :: "connection \<Rightarrow> ssdssc" where
  "ssd_init c =
     \<lparr>ssd_connection = c,
      ssd_datagrams = filter (\<lambda>d. sentByClient d \<and> payloadLen d \<noteq> 0) (datagrams c)\<rparr>"

subsection \<open>compare\_RTT\_IAT\<close>

text \<open>\<^verbatim>\<open>[datagram.RTT.total_seconds() for datagram in self.datagrams]\<close>\<close>

fun RTT_seconds :: "datagram list \<Rightarrow> error + rat list" where
  "RTT_seconds [] = Inr []"
| "RTT_seconds (d # ds) =
     (case RTT d of
        None \<Rightarrow> Inl AttributeError
      | Some r \<Rightarrow>
          (case RTT_seconds ds of
             Inl e \<Rightarrow> Inl e
           | Inr rs \<Rightarrow> Inr (total_seconds r # rs)))"

text \<open>
  The loop that builds \<^verbatim>\<open>IATs\<close>. The flag \<^verbatim>\<open>first\<close> is true exactly as long as
  \<^verbatim>\<open>last_datagram\<close> is unbound, so the state is \<^verbatim>\<open>last_datagram\<close> (if any) and the list.
\<close>

fun IATs_loop :: "datagram list \<Rightarrow> datagram option \<Rightarrow> rat list \<Rightarrow> rat list" where
  "IATs_loop [] last_datagram IATs = IATs"
| "IATs_loop (d # ds) last_datagram IATs =
     (if payloadLen d = 0 then IATs_loop ds last_datagram IATs
      else if sentByClient d then
        (case last_datagram of
           None \<Rightarrow> IATs_loop ds (Some d) IATs
         | Some l \<Rightarrow> IATs_loop ds (Some d) (IATs @ [total_seconds (time d - time l)]))
      else IATs_loop ds last_datagram IATs)"

text \<open>
  \<^verbatim>\<open>RTTs[i] != 0 and abs((RTTs[i] - IATs[i])/RTTs[i]) <= self.CLOSE_ENOUGH\<close>, for an
  \<open>i\<close> of \<^verbatim>\<open>range(len(RTTs))\<close>; \<^verbatim>\<open>IATs[i]\<close> raises when \<open>i\<close> is out of range.
\<close>

definition close_enough :: "rat list \<Rightarrow> rat list \<Rightarrow> nat \<Rightarrow> error + bool" where
  "close_enough RTTs IATs i =
     (if RTTs ! i \<noteq> 0 then
        (if i < length IATs
         then Inr (\<bar>(RTTs ! i - IATs ! i) / (RTTs ! i)\<bar> \<le> CLOSE_ENOUGH)
         else Inl IndexError)
      else Inr False)"

fun compare_loop :: "rat list \<Rightarrow> rat list \<Rightarrow> nat list \<Rightarrow> rat \<Rightarrow> error + rat" where
  "compare_loop RTTs IATs [] compt = Inr compt"
| "compare_loop RTTs IATs (i # is) compt =
     (case close_enough RTTs IATs i of
        Inl e \<Rightarrow> Inl e
      | Inr b \<Rightarrow> compare_loop RTTs IATs is (if b then compt + 1 else compt))"

text \<open>
  \<^verbatim>\<open>compt / len(RTTs)\<close> is computed for the log line first and a second time, from the
  same operands, for the verdict.
\<close>

definition compare_RTT_IAT :: "ssdssc \<Rightarrow> (error + bool option) \<times> log_entry list" where
  "compare_RTT_IAT s =
     (let log0 = [Debug ''Computation of RTT & IAT similarity''] in
      case RTT_seconds (ssd_datagrams s) of
        Inl e \<Rightarrow> (Inl e, log0)
      | Inr all_RTTs \<Rightarrow>
          (let RTTs = drop 1 all_RTTs in
           if length RTTs < 20
           then (Inr None, log0 @ [Debug ''Not enough useful datagrams to make calculation''])
           else
             (let IATs = IATs_loop (datagrams (ssd_connection s)) None [] in
              case compare_loop RTTs IATs [0..<length RTTs] 0 of
                Inl e \<Rightarrow> (Inl e, log0)
              | Inr compt \<Rightarrow>
                  (case float_div compt (of_nat (length RTTs)) of
                     Inl e \<Rightarrow> (Inl e, log0)
                   | Inr q \<Rightarrow>
                       (Inr (Some (q \<le> IAT_RTT_DIFFERENT)),
                        log0 @ [Debug_similarity (q * 100)])))))"

subsection \<open>is\_PS\_modally\_distributed\<close>

text \<open>
  The dictionary \<^verbatim>\<open>groups\<close> maps a group centre to the list of its payload lengths. It
  is an association list in insertion order; CPython 2.7 iterates a dictionary in
  hash-table order instead, which matters to \<^verbatim>\<open>closest_group\<close> only when several
  centres lie within \<^verbatim>\<open>IN_GROUP\<close> of a payload. Payload lengths are integers, so
  \<^verbatim>\<open>sum(...) / len(...)\<close> is Python 2 floor division.
\<close>

type_synonym groups = "(int \<times> int list) list"

fun closest_loop :: "int \<Rightarrow> int list \<Rightarrow> int option \<Rightarrow> int option" where
  "closest_loop payload [] closest = closest"
| "closest_loop payload (g # gs) closest =
     closest_loop payload gs
       (if \<bar>g - payload\<bar> \<le> IN_GROUP
           \<and> (case closest of None \<Rightarrow> True | Some c \<Rightarrow> \<bar>g - payload\<bar> < c)
        then Some g else closest)"

definition closest_group :: "int \<Rightarrow> groups \<Rightarrow> int option" where
  "closest_group payload gr = closest_loop payload (map fst gr) None"

definition average :: "int list \<Rightarrow> error + int" where
  "average ms = (if ms = [] then Inl ZeroDivisionError
                 else Inr (sum_list ms div int (length ms)))"

definition update_average_possible :: "int \<Rightarrow> groups \<Rightarrow> error + bool" where
  "update_average_possible closest gr =
     (case map_of gr closest of
        None \<Rightarrow> Inl KeyError
      | Some ms \<Rightarrow>
          (case average ms of
             Inl e \<Rightarrow> Inl e
           | Inr prov_average \<Rightarrow>
               Inr (list_all (\<lambda>g. \<not> \<bar>g - prov_average\<bar> \<le> IN_GROUP) (map fst gr))))"

text \<open>The body of the loop over \<^verbatim>\<open>payloads\<close>.\<close>

definition add_payload :: "int \<Rightarrow> groups \<Rightarrow> error + groups" where
  "add_payload payload gr =
     (case closest_group payload gr of
        None \<Rightarrow> Inr (AList.update payload [payload] gr)
      | Some closest \<Rightarrow>
          (case map_of gr closest of
             None \<Rightarrow> Inl KeyError
           | Some ms \<Rightarrow>
               (let gr1 = AList.update closest (ms @ [payload]) gr in
                case update_average_possible closest gr1 of
                  Inl e \<Rightarrow> Inl e
                | Inr False \<Rightarrow> Inr gr1
                | Inr True \<Rightarrow>
                    (case average (ms @ [payload]) of
                       Inl e \<Rightarrow> Inl e
                     | Inr new \<Rightarrow>
                         Inr (AList.delete closest
                                (AList.update new (ms @ [payload]) gr1))))))"

fun cluster :: "int list \<Rightarrow> groups \<Rightarrow> error + groups" where
  "cluster [] gr = Inr gr"
| "cluster (payload # payloads) gr =
     (case add_payload payload gr of
        Inl e \<Rightarrow> Inl e
      | Inr gr' \<Rightarrow> cluster payloads gr')"

definition significant_total :: "nat \<Rightarrow> groups \<Rightarrow> nat" where
  "significant_total n gr =
     sum_list (map (\<lambda>(g, ms). if of_nat (length ms) > of_nat n * MIN_SIZE
                              then length ms else 0) gr)"

definition is_PS_modally_distributed :: "ssdssc \<Rightarrow> (error + bool) \<times> log_entry list" where
  "is_PS_modally_distributed s =
     (let log0 = [Debug ''Checking if n-modulus distribution.''];
          payloads = map payloadLen (ssd_datagrams s) in
      case cluster payloads [] of
        Inl e \<Rightarrow> (Inl e, log0)
      | Inr gr \<Rightarrow>
          (let n = significant_total (length payloads) gr in
           case float_div (of_nat n) (of_nat (length payloads)) of
             Inl e \<Rightarrow> (Inl e, log0)
           | Inr q \<Rightarrow>
               (Inr (of_nat n > N_MOD_DIST * of_nat (length payloads)),
                log0 @ [Debug_n_modulus (q * 100)])))"

subsection \<open>is\_stepping\_stone and the plugin's analyse\<close>

definition is_stepping_stone :: "ssdssc \<Rightarrow> (error + bool) \<times> log_entry list" where
  "is_stepping_stone s =
     (case compare_RTT_IAT s of
        (Inl e, lg) \<Rightarrow> (Inl e, lg)
      | (Inr None, lg) \<Rightarrow> (Inr False, lg)
      | (Inr (Some True), lg) \<Rightarrow> (Inr True, lg)
      | (Inr (Some False), lg) \<Rightarrow>
          (case is_PS_modally_distributed s of (r, lg') \<Rightarrow> (r, lg @ lg')))"

text \<open>The body of the loop of \<^verbatim>\<open>SteppingStoneDetectionServerSide.analyse\<close>.\<close>

definition analyse_connection :: "connection \<Rightarrow> (error + bool) \<times> log_entry list" where
  "analyse_connection c =
     (let log0 = [Debug_connect (nb c)] in
      if length (datagrams c) > 20 then
        (case is_stepping_stone (ssd_init c) of
           (Inl e, lg) \<Rightarrow> (Inl e, log0 @ lg)
         | (Inr v, lg) \<Rightarrow> (Inr v, log0 @ lg @ [Debug_is_stepping_stone v]))
      else (Inr False, log0 @ [Debug ''Not enough datagrams in connection'']))"

text \<open>
  The dictionary \<^verbatim>\<open>self.is_stepping_stone\<close> as the list of the verdicts recorded so
  far; an exception leaves the loop.
\<close>

fun analyse_loop ::
  "connection list \<Rightarrow> (connection \<times> bool) list \<Rightarrow> log_entry list
     \<Rightarrow> (error + (connection \<times> bool) list) \<times> log_entry list" where
  "analyse_loop [] verdicts lg = (Inr verdicts, lg)"
| "analyse_loop (c # cs) verdicts lg =
     (case analyse_connection c of
        (Inl e, lg') \<Rightarrow> (Inl e, lg @ lg')
      | (Inr v, lg') \<Rightarrow> analyse_loop cs (AList.update c v verdicts) (lg @ lg'))"

definition ssd_analyse ::
  "connection list \<Rightarrow> (error + (connection \<times> bool) list) \<times> log_entry list" where
  "ssd_analyse cs = analyse_loop cs [] [Info ''Starting computation'']"

section \<open>Connection type (connection\_type.py)\<close>

definition shell_max_time_to_reply :: rat where "shell_max_time_to_reply = 7 / 10"
definition shell_min_replies :: rat where "shell_min_replies = 6 / 10"
definition rshell_max_time_to_reply :: rat where "rshell_max_time_to_reply = 7 / 10"
definition rshell_min_replies :: rat where "rshell_min_replies = 6 / 10"
definition scp_up_min_asymetry :: rat where "scp_up_min_asymetry = 95 / 100"
definition scp_down_max_asymetry :: rat where "scp_down_max_asymetry = 5 / 100"

definition client_sent :: "datagram list \<Rightarrow> rat" where
  "client_sent ds = of_int (sum_list (map payloadLen (filter (\<lambda>p. sentByClient p) ds)))"

definition server_sent :: "datagram list \<Rightarrow> rat" where
  "server_sent ds = of_int (sum_list (map payloadLen (filter (\<lambda>p. \<not> sentByClient p) ds)))"

text \<open>\<^verbatim>\<open>compute_asymetry\<close>: the value it leaves in \<^verbatim>\<open>self.ratio_server_sent\<close>.\<close>

definition compute_asymetry :: "datagram list \<Rightarrow> error + rat" where
  "compute_asymetry ds =
     (if server_sent ds = 0 then Inr 0
      else float_div (server_sent ds) (server_sent ds + client_sent ds))"

text \<open>
  \<^verbatim>\<open>compute_time_to_reply\<close>: the state of its loop is \<^verbatim>\<open>self.time_to_reply\<close> and
  \<^verbatim>\<open>last_datagram\<close>, both indexed by the direction.
\<close>

record reply_state =
  time_to_reply :: "bool \<Rightarrow> rat list"
  last_datagram :: "bool \<Rightarrow> datagram option"

definition reply_step :: "datagram \<Rightarrow> reply_state \<Rightarrow> error + reply_state" where
  "reply_step d st =
     (if payloadLen d = 0 then Inr st
      else
        (let way = \<not> sentByClient d;
             moved = (\<lambda>st'. st'\<lparr>last_datagram := (last_datagram st')(way := None, (\<not> way) := Some d)\<rparr>)
         in case last_datagram st way of
              None \<Rightarrow> Inr (moved st)
            | Some l \<Rightarrow>
                (case RTT l of
                   None \<Rightarrow> Inl AttributeError
                 | Some r \<Rightarrow>
                     if total_seconds r \<noteq> 0 then
                       Inr (moved (st\<lparr>time_to_reply := (time_to_reply st)
                              (way := time_to_reply st way
                                 @ [total_seconds (time d - time l) / total_seconds r])\<rparr>))
                     else Inr (moved st))))"

fun reply_loop :: "datagram list \<Rightarrow> reply_state \<Rightarrow> error + reply_state" where
  "reply_loop [] st = Inr st"
| "reply_loop (d # ds) st =
     (case reply_step d st of
        Inl e \<Rightarrow> Inl e
      | Inr st' \<Rightarrow> reply_loop ds st')"

definition compute_time_to_reply :: "datagram list \<Rightarrow> error + (bool \<Rightarrow> rat list)" where
  "compute_time_to_reply ds =
     (case reply_loop ds \<lparr>time_to_reply = (\<lambda>way. []), last_datagram = (\<lambda>way. None)\<rparr> of
        Inl e \<Rightarrow> Inl e
      | Inr st \<Rightarrow> Inr (time_to_reply st))"

text \<open>The tables \<^verbatim>\<open>name\<close>, \<^verbatim>\<open>max_time_to_reply\<close> and \<^verbatim>\<open>min_replies\<close> of \<^verbatim>\<open>analyse\<close>.\<close>

definition name :: "bool \<Rightarrow> string" where
  "name way = (if way then ''shell'' else ''reverse shell'')"

definition max_time_to_reply :: "bool \<Rightarrow> rat" where
  "max_time_to_reply way = (if way then shell_max_time_to_reply else rshell_max_time_to_reply)"

definition min_replies :: "bool \<Rightarrow> rat" where
  "min_replies way = (if way then shell_min_replies else rshell_min_replies)"

text \<open>
  The test made for one \<^verbatim>\<open>way\<close> in the loop \<^verbatim>\<open>for way in (True, False)\<close>: there are
  replies, and the ratio of those below the threshold is large enough.
\<close>

definition enough_replies :: "(bool \<Rightarrow> rat list) \<Rightarrow> bool \<Rightarrow> bool" where
  "enough_replies ttr way =
     (length (ttr way) \<noteq> 0
      \<and> of_nat (length (filter (\<lambda>t. t \<le> max_time_to_reply way) (ttr way)))
          / of_nat (length (ttr way)) \<ge> min_replies way)"

text \<open>The part of \<^verbatim>\<open>analyse\<close> after the asymetry test.\<close>

definition reply_analysis :: "datagram list \<Rightarrow> error + string" where
  "reply_analysis ds =
     (case compute_time_to_reply ds of
        Inl e \<Rightarrow> Inl e
      | Inr ttr \<Rightarrow>
          if enough_replies ttr True then Inr (name True)
          else if enough_replies ttr False then Inr (name False)
          else Inr ''tunnel'')"

text \<open>\<^verbatim>\<open>ConnectionType.analyse\<close>: the value it leaves in \<^verbatim>\<open>self.connection_type\<close>.\<close>

definition connection_type_analyse :: "datagram list \<Rightarrow> error + string" where
  "connection_type_analyse ds =
     (case compute_asymetry ds of
        Inl e \<Rightarrow> Inl e
      | Inr ratio_server_sent \<Rightarrow>
          if ratio_server_sent > 1 / 2 then
            (if ratio_server_sent \<ge> scp_up_min_asymetry then Inr ''scp (down)''
             else reply_analysis ds)
          else
            (if ratio_server_sent \<le> scp_down_max_asymetry then Inr ''scp (up)''
             else reply_analysis ds))"

section \<open>Notions used in the statements\<close>

text \<open>A request of the client and the datagram of the server that acknowledges it.\<close>

definition example_request :: datagram where
  "example_request = \<lparr>sentByClient = True, time = 100, seqNb = 1, totalLen = 60,
     payloadLen = 8, ack = 5, RTT = None\<rparr>"

definition example_ack :: datagram where
  "example_ack = \<lparr>sentByClient = False, time = 250, seqNb = 7, totalLen = 52,
     payloadLen = 0, ack = 2, RTT = None\<rparr>"

definition example_connection :: connection where
  "example_connection = \<lparr>nb = 0, datagrams = [example_request, example_ack]\<rparr>"

text \<open>
  Bookkeeping of the forward loop in closed form, for a sequence \<open>ms\<close> as the loop finds
  it: \<open>gap ms w j\<close> is the list \<^verbatim>\<open>empty_RTTs[w]\<close> and \<open>known ms w j\<close> the value
  \<^verbatim>\<open>last_RTT[w]\<close> when the loop reaches position \<open>j\<close>.
\<close>

primrec gap :: "datagram list \<Rightarrow> bool \<Rightarrow> nat \<Rightarrow> nat list" where
  "gap ms w 0 = []"
| "gap ms w (Suc j) =
     (if sentByClient (ms ! j) = w
      then (if RTT (ms ! j) = None then gap ms w j @ [j] else [])
      else gap ms w j)"

primrec known :: "datagram list \<Rightarrow> bool \<Rightarrow> nat \<Rightarrow> int option" where
  "known ms w 0 = None"
| "known ms w (Suc j) =
     (if sentByClient (ms ! j) = w \<and> RTT (ms ! j) \<noteq> None then RTT (ms ! j)
      else known ms w j)"

text \<open>
  The positions from \<open>a\<close> up to \<open>b\<close> (excluded) whose datagram travels in direction
  \<open>w\<close>, and the test that none of the datagrams at some positions has an RTT.
\<close>

definition way_positions :: "datagram list \<Rightarrow> bool \<Rightarrow> nat \<Rightarrow> nat \<Rightarrow> nat list" where
  "way_positions ms w a b = filter (\<lambda>j. sentByClient (ms ! j) = w) [a..<b]"

definition unset :: "datagram list \<Rightarrow> nat list \<Rightarrow> bool" where
  "unset ms ps = list_all (\<lambda>j. RTT (ms ! j) = None) ps"

text \<open>Example sequences.\<close>

definition dg :: "bool \<Rightarrow> int \<Rightarrow> int option \<Rightarrow> datagram" where
  "dg way t r = \<lparr>sentByClient = way, time = t, seqNb = t, totalLen = 60, payloadLen = 8,
     ack = - 1, RTT = r\<rparr>"

definition gap_example :: "datagram list" where
  "gap_example = [dg True 1 (Some 200000), dg True 2 None, dg True 3 (Some 300001)]"

definition runs_example :: "datagram list" where
  "runs_example = [dg True 1 None, dg True 2 (Some 10), dg True 3 None, dg False 4 None,
     dg True 5 None, dg True 6 (Some 40), dg True 7 None]"

text \<open>Example connections for the classifier.\<close>

definition shell_example :: "datagram list" where
  "shell_example =
     [\<lparr>sentByClient = True, time = 0, seqNb = 1, totalLen = 62, payloadLen = 10, ack = - 1,
        RTT = Some 1000000\<rparr>,
      \<lparr>sentByClient = False, time = 500000, seqNb = 1, totalLen = 62, payloadLen = 10, ack = 2,
        RTT = Some 1000000\<rparr>]"

definition unset_rtt_example :: "datagram list" where
  "unset_rtt_example =
     [\<lparr>sentByClient = True, time = 0, seqNb = 1, totalLen = 62, payloadLen = 10, ack = - 1,
        RTT = None\<rparr>,
      \<lparr>sentByClient = False, time = 500000, seqNb = 1, totalLen = 62, payloadLen = 10, ack = 2,
        RTT = None\<rparr>]"

definition scp_up_example :: "datagram list" where
  "scp_up_example =
     [\<lparr>sentByClient = True, time = 0, seqNb = 1, totalLen = 564, payloadLen = 512, ack = - 1,
        RTT = Some 1000000\<rparr>,
      \<lparr>sentByClient = False, time = 500000, seqNb = 1, totalLen = 52, payloadLen = 0, ack = 2,
        RTT = Some 1000000\<rparr>]"

definition scp_down_example :: "datagram list" where
  "scp_down_example =
     [\<lparr>sentByClient = False, time = 0, seqNb = 1, totalLen = 564, payloadLen = 512, ack = - 1,
        RTT = Some 1000000\<rparr>,
      \<lparr>sentByClient = True, time = 500000, seqNb = 1, totalLen = 52, payloadLen = 0, ack = 2,
        RTT = Some 1000000\<rparr>]"

text \<open>
  Example connections for the detector: \<open>cp\<close> is a payload of the client, \<open>sa\<close> an
  acknowledgment of the server without payload.
\<close>

definition cp :: "int \<Rightarrow> int \<Rightarrow> int option \<Rightarrow> datagram" where
  "cp t len r = \<lparr>sentByClient = True, time = t, seqNb = t, totalLen = len + 52, payloadLen = len,
     ack = - 1, RTT = r\<rparr>"

definition sa :: "int \<Rightarrow> datagram" where
  "sa t = \<lparr>sentByClient = False, time = t, seqNb = t, totalLen = 52, payloadLen = 0,
     ack = t, RTT = None\<rparr>"

definition few_example :: connection where
  "few_example = \<lparr>nb = 1, datagrams = cp 0 10 (Some 1000) # map sa [1..21]\<rparr>"

definition few_unset_example :: connection where
  "few_unset_example = \<lparr>nb = 2, datagrams = cp 0 10 None # map sa [1..21]\<rparr>"

definition relay_example :: connection where
  "relay_example = \<lparr>nb = 3, datagrams = map (\<lambda>i. cp (i * 1000000) 10 (Some 1000)) [0..20]\<rparr>"

definition spread_example :: connection where
  "spread_example = \<lparr>nb = 5, datagrams = map (\<lambda>i. cp (i * 1000) (10 * (i + 1)) (Some 1000)) [0..20]\<rparr>"

definition rekey_example_connection :: connection where
  "rekey_example_connection =
     \<lparr>nb = 7, datagrams = map (\<lambda>i. cp (i * 1000) (if i = 1 then 13 else 10) (Some 1000)) [0..20]\<rparr>"

definition short_example :: connection where
  "short_example = \<lparr>nb = 6, datagrams = map (\<lambda>i. cp (i * 1000) 10 None) [0..14]\<rparr>"

text \<open>
  The groups whose centre is the first payload length of the group and lies within
  \<^verbatim>\<open>IN_GROUP\<close> of each of its payload lengths.
\<close>

definition centred :: "groups \<Rightarrow> bool" where
  "centred gr = (\<forall>g ms. map_of gr g = Some ms \<longrightarrow>
                   ms \<noteq> [] \<and> hd ms = g \<and> (\<forall>m \<in> set ms. \<bar>g - m\<bar> \<le> IN_GROUP))"

section \<open>Properties of the RTT estimation\<close>

subsection \<open>Only the RTT field is written\<close>

lemma match_datagram_erase: "(match_datagram la d)\<lparr>RTT := x\<rparr> = d\<lparr>RTT := x\<rparr>"
  by (simp add: match_datagram_def split: option.splits)

lemma match_loop_erase:
  "map (\<lambda>d. d\<lparr>RTT := x\<rparr>) (match_loop la ds) = map (\<lambda>d. d\<lparr>RTT := x\<rparr>) ds"
  by (induction ds arbitrary: la) (simp_all add: match_datagram_erase)

lemma exact_matching_erase:
  "map (\<lambda>d. d\<lparr>RTT := x\<rparr>) (exact_matching ds) = map (\<lambda>d. d\<lparr>RTT := x\<rparr>) ds"
  by (simp add: exact_matching_def rev_map [symmetric] match_loop_erase)

lemma set_RTT_erase:
  "map (\<lambda>d. d\<lparr>RTT := x\<rparr>) (set_RTT p v ds) = map (\<lambda>d. d\<lparr>RTT := x\<rparr>) ds"
  by (cases "p < length ds") (simp_all add: set_RTT_def map_update list_update_same_conv list_update_beyond)

lemma recopy_erase:
  "map (\<lambda>d. d\<lparr>RTT := x\<rparr>) (recopy ps v ds) = map (\<lambda>d. d\<lparr>RTT := x\<rparr>) ds"
  by (induction ps arbitrary: ds) (simp_all add: set_RTT_erase)

lemma interpolate_erase:
  "map (\<lambda>d. d\<lparr>RTT := x\<rparr>) (interpolate ps l diff i ds) = map (\<lambda>d. d\<lparr>RTT := x\<rparr>) ds"
  by (induction ps arbitrary: ds i) (simp_all add: set_RTT_erase)

lemma estimate_step_erase:
  "map (\<lambda>d. d\<lparr>RTT := x\<rparr>) (dgs (estimate_step j st)) = map (\<lambda>d. d\<lparr>RTT := x\<rparr>) (dgs st)"
  by (simp add: estimate_step_def Let_def recopy_erase interpolate_erase split: option.splits)

lemma fold_estimate_step_erase:
  "map (\<lambda>d. d\<lparr>RTT := x\<rparr>) (dgs (fold estimate_step js st)) = map (\<lambda>d. d\<lparr>RTT := x\<rparr>) (dgs st)"
  by (induction js arbitrary: st) (simp_all add: estimate_step_erase)

lemma finish_way_erase:
  "map (\<lambda>d. d\<lparr>RTT := x\<rparr>) (dgs (finish_way way st)) = map (\<lambda>d. d\<lparr>RTT := x\<rparr>) (dgs st)"
  by (simp add: finish_way_def recopy_erase split: option.splits)

lemma estimate_others_erase:
  "map (\<lambda>d. d\<lparr>RTT := x\<rparr>) (estimate_others ds) = map (\<lambda>d. d\<lparr>RTT := x\<rparr>) ds"
  by (simp add: estimate_others_def estimate_loop_def finish_way_erase
      fold_estimate_step_erase estimate_init_def)

text \<open>
  Claim C6. After \<^verbatim>\<open>compute_RTT\<close> the datagram sequence has its original order and length:
  at every position the datagram differs from the original one at most in its \<^verbatim>\<open>RTT\<close>
  field (overwriting that field with any one value on both sides gives equal sequences),
  so direction, time, sequence number, lengths and ack reference are unchanged.
\<close>

theorem compute_RTT_frame:
  "map (\<lambda>d. d\<lparr>RTT := x\<rparr>) (datagrams (compute_RTT c)) = map (\<lambda>d. d\<lparr>RTT := x\<rparr>) (datagrams c)
   \<and> length (datagrams (compute_RTT c)) = length (datagrams c)
   \<and> nb (compute_RTT c) = nb c"
proof -
  have m: "map (\<lambda>d. d\<lparr>RTT := x\<rparr>) (datagrams (compute_RTT c)) = map (\<lambda>d. d\<lparr>RTT := x\<rparr>) (datagrams c)"
    by (simp add: compute_RTT_def compute_RTT_datagrams_def estimate_others_erase
        exact_matching_erase)
  from arg_cong [OF m, of length] show ?thesis using m by (simp add: compute_RTT_def)
qed

theorem compute_RTT_frame_witness:
  "map RTT (datagrams (compute_RTT example_connection)) = [Some 150, None]
   \<and> map (\<lambda>d. d\<lparr>RTT := None\<rparr>) (datagrams (compute_RTT example_connection))
       = [example_request, example_ack]
   \<and> length (datagrams (compute_RTT example_connection)) = 2"
proof -
  have r: "map RTT (datagrams (compute_RTT example_connection)) = [Some 150, None]"
    by code_simp
  have d: "map (\<lambda>d. d\<lparr>RTT := None\<rparr>) (datagrams example_connection)
      = [example_request, example_ack]"
    by (simp add: example_connection_def example_request_def example_ack_def)
  have l: "length (datagrams example_connection) = 2"
    by (simp add: example_connection_def)
  from compute_RTT_frame [of None example_connection] r show ?thesis
    unfolding d l by simp
qed

subsection \<open>The acknowledgment-matching pass\<close>

lemma length_match_loop: "length (match_loop la ds) = length ds"
  by (induction ds arbitrary: la) simp_all

lemma match_loop_append:
  "match_loop la (xs @ ys) = match_loop la xs @ match_loop (pending_after la xs) ys"
  by (induction xs arbitrary: la) simp_all

lemma pending_after_append:
  "pending_after la (xs @ ys) = pending_after (pending_after la xs) ys"
  by (induction xs arbitrary: la) simp_all

lemma exact_matching_nth:
  "exact_matching (earlier @ d # later) ! length earlier
     = match_datagram (pending_after no_acking (rev later)) d"
proof -
  let ?la = "pending_after no_acking (rev later)"
  have "exact_matching (earlier @ d # later)
      = rev (match_loop (match_pending ?la d) (rev earlier))
          @ match_datagram ?la d # rev (match_loop no_acking (rev later))"
    by (simp add: exact_matching_def match_loop_append)
  then show ?thesis
    by (simp add: nth_append length_match_loop)
qed

text \<open>
  Claim C4. Let \<open>d\<close> be a datagram of the sequence, \<open>later\<close> the datagrams after it
  (those the reversed traversal has already seen) and \<open>la\<close> the pending ackers when the
  traversal reaches \<open>d\<close>. Then \<open>d\<close> gets \<^verbatim>\<open>RTT = acker.time - d.time\<close> exactly when the
  opposite direction holds a pending acker \<open>a\<close> with \<open>seqNb d < seqNb a\<close>, and that
  pending acker is then cleared; otherwise \<open>d\<close> and the opposite pending acker are left
  as they are. Independently, \<open>d\<close> becomes the pending acker of its own direction when
  it carries an acknowledgment reference (\<open>ack d \<noteq> -1\<close>). The field \<^verbatim>\<open>ack\<close> is \<open>-1\<close> or
  the sequence number of the acknowledged datagram, hence at least \<open>-1\<close>.
\<close>

theorem exact_matching_rule:
  assumes "- 1 \<le> ack d"
  shows "(let la = pending_after no_acking (rev later);
              la' = pending_after no_acking (rev later @ [d]);
              d' = exact_matching (earlier @ d # later) ! length earlier;
              way = sentByClient d
          in (case la (\<not> way) of
                None \<Rightarrow> d' = d \<and> la' (\<not> way) = None
              | Some a \<Rightarrow>
                  if seqNb d < seqNb a
                  then d' = d\<lparr>RTT := Some (time a - time d)\<rparr> \<and> la' (\<not> way) = None
                  else d' = d \<and> la' (\<not> way) = Some a)
             \<and> la' way = (if ack d \<noteq> - 1 then Some d' else la way))"
proof -
  define la where "la = pending_after no_acking (rev later)"
  have la': "pending_after no_acking (rev later @ [d]) = match_pending la d"
    by (simp add: pending_after_append la_def)
  have d': "exact_matching (earlier @ d # later) ! length earlier = match_datagram la d"
    by (simp add: exact_matching_nth la_def)
  have opp: "case la (\<not> sentByClient d) of
               None \<Rightarrow> match_datagram la d = d \<and> match_pending la d (\<not> sentByClient d) = None
             | Some a \<Rightarrow>
                 if seqNb d < seqNb a
                 then match_datagram la d = d\<lparr>RTT := Some (time a - time d)\<rparr>
                      \<and> match_pending la d (\<not> sentByClient d) = None
                 else match_datagram la d = d \<and> match_pending la d (\<not> sentByClient d) = Some a"
    by (simp add: match_pending_def match_datagram_def acked_by_def split: option.splits)
  have own: "match_pending la d (sentByClient d)
               = (if ack d \<noteq> - 1 then Some (match_datagram la d) else la (sentByClient d))"
    using assms by (simp add: match_pending_def acked_by_def split: option.splits)
  show ?thesis
    unfolding Let_def la' d' la_def [symmetric] using opp own by simp
qed

theorem exact_matching_rule_witness:
  "- 1 \<le> ack example_request
   \<and> pending_after no_acking (rev [example_ack]) (\<not> sentByClient example_request)
       = Some example_ack
   \<and> seqNb example_request < seqNb example_ack
   \<and> exact_matching ([] @ example_request # [example_ack]) ! length ([] :: datagram list) = example_request\<lparr>RTT := Some 150\<rparr>
   \<and> pending_after no_acking (rev [example_ack] @ [example_request]) False = None
   \<and> pending_after no_acking (rev [example_ack] @ [example_request]) True = Some (example_request\<lparr>RTT := Some 150\<rparr>)"
proof -
  have a: "- 1 \<le> ack example_request" by (simp add: example_request_def)
  have p: "pending_after no_acking (rev [example_ack]) = no_acking(False := Some example_ack)"
    by (simp add: example_ack_def no_acking_def match_pending_def match_datagram_def acked_by_def)
  have s: "seqNb example_request < seqNb example_ack" "sentByClient example_request" "ack example_request \<noteq> - 1"
    by (simp_all add: example_request_def example_ack_def)
  have t: "time example_ack - time example_request = 150" by (simp add: example_request_def example_ack_def)
  show ?thesis
    using exact_matching_rule [OF a, of "[example_ack]" "[]"] a s t unfolding Let_def p
    by simp
qed

subsection \<open>The interpolation pass\<close>

lemma length_set_RTT [simp]: "length (set_RTT p v ds) = length ds"
  by (simp add: set_RTT_def)

lemma set_RTT_nth_other: "i \<noteq> p \<Longrightarrow> set_RTT p v ds ! i = ds ! i"
  by (simp add: set_RTT_def)

lemma set_RTT_nth_same: "p < length ds \<Longrightarrow> set_RTT p v ds ! p = (ds ! p)\<lparr>RTT := Some v\<rparr>"
  by (simp add: set_RTT_def)

lemma length_recopy [simp]: "length (recopy ps v ds) = length ds"
  by (induction ps arbitrary: ds) simp_all

lemma recopy_nth_other: "i \<notin> set ps \<Longrightarrow> recopy ps v ds ! i = ds ! i"
  by (induction ps arbitrary: ds) (simp_all add: set_RTT_nth_other)

lemma recopy_nth_RTT: "i \<in> set ps \<Longrightarrow> i < length ds \<Longrightarrow> RTT (recopy ps v ds ! i) = Some v"
proof (induction ps arbitrary: ds)
  case Nil
  then show ?case by simp
next
  case (Cons p ps)
  show ?case
  proof (cases "i \<in> set ps")
    case True
    with Cons show ?thesis by simp
  next
    case False
    with Cons.prems have "i = p" by simp
    with False Cons.prems show ?thesis
      by (simp add: recopy_nth_other set_RTT_nth_same)
  qed
qed

lemma length_interpolate [simp]: "length (interpolate ps l diff i ds) = length ds"
  by (induction ps arbitrary: ds i) simp_all

lemma interpolate_nth_other: "k \<notin> set ps \<Longrightarrow> interpolate ps l diff i ds ! k = ds ! k"
  by (induction ps arbitrary: ds i) (simp_all add: set_RTT_nth_other)

lemma interpolate_nth_RTT:
  "distinct ps \<Longrightarrow> n < length ps \<Longrightarrow> ps ! n < length ds \<Longrightarrow>
   RTT (interpolate ps l diff i ds ! (ps ! n)) = Some (l + (i + int n) * diff)"
proof (induction ps arbitrary: ds i n)
  case Nil
  then show ?case by simp
next
  case (Cons p ps)
  show ?case
  proof (cases n)
    case 0
    with Cons.prems show ?thesis
      by (simp add: interpolate_nth_other set_RTT_nth_same)
  next
    case (Suc m)
    with Cons.prems have "RTT (interpolate ps l diff (i + 1) (set_RTT p (l + i * diff) ds) ! (ps ! m))
        = Some (l + (i + 1 + int m) * diff)"
      by (intro Cons.IH) simp_all
    with Suc show ?thesis by (simp add: algebra_simps)
  qed
qed

lemma estimate_step_None:
  "RTT (dgs st ! j) = None \<Longrightarrow>
   estimate_step j st = st\<lparr>empty_RTTs := (empty_RTTs st)
     (sentByClient (dgs st ! j) := empty_RTTs st (sentByClient (dgs st ! j)) @ [j])\<rparr>"
  by (simp add: estimate_step_def Let_def)

lemma estimate_step_Some:
  "RTT (dgs st ! j) = Some r \<Longrightarrow>
   estimate_step j st =
     \<lparr>dgs = (case last_RTT st (sentByClient (dgs st ! j)) of
               None \<Rightarrow> recopy (empty_RTTs st (sentByClient (dgs st ! j))) r (dgs st)
             | Some l \<Rightarrow> interpolate (empty_RTTs st (sentByClient (dgs st ! j))) l
                 ((r - l) div (1 + int (length (empty_RTTs st (sentByClient (dgs st ! j)))))) 1
                 (dgs st)),
      last_RTT = (last_RTT st)(sentByClient (dgs st ! j) := Some r),
      empty_RTTs = (empty_RTTs st)(sentByClient (dgs st ! j) := [])\<rparr>"
  by (cases st) (auto simp add: estimate_step_def Let_def fun_upd_idem split: option.splits)

lemma gap_less: "i \<in> set (gap ms w j) \<Longrightarrow> i < j"
  by (induction j) (auto split: if_splits)

lemma gap_way: "i \<in> set (gap ms w j) \<Longrightarrow> sentByClient (ms ! i) = w"
  by (induction j) (auto split: if_splits)

lemma gap_unset: "i \<in> set (gap ms w j) \<Longrightarrow> RTT (ms ! i) = None"
  by (induction j) (auto split: if_splits)

lemma distinct_gap: "distinct (gap ms w j)"
  by (induction j) (auto dest: gap_less)

lemma gap_settled:
  "i \<le> i' \<Longrightarrow> i' < j \<Longrightarrow> sentByClient (ms ! i') = w \<Longrightarrow> RTT (ms ! i') \<noteq> None \<Longrightarrow>
   i \<notin> set (gap ms w j)"
proof (induction j)
  case 0
  then show ?case by simp
next
  case (Suc j)
  show ?case
  proof (cases "i' = j")
    case True
    with Suc.prems show ?thesis by simp
  next
    case False
    with Suc.prems have "i \<notin> set (gap ms w j)" by (intro Suc.IH) simp_all
    moreover from False Suc.prems have "i \<noteq> j" by simp
    ultimately show ?thesis by simp
  qed
qed

lemma length_estimate_step [simp]: "length (dgs (estimate_step j st)) = length (dgs st)"
  by (cases "RTT (dgs st ! j)")
     (simp_all add: estimate_step_None estimate_step_Some split: option.splits)

lemma estimate_step_nth_other:
  "i \<notin> set (empty_RTTs st (sentByClient (dgs st ! j))) \<Longrightarrow>
   dgs (estimate_step j st) ! i = dgs st ! i"
  by (cases "RTT (dgs st ! j)")
     (simp_all add: estimate_step_None estimate_step_Some recopy_nth_other
        interpolate_nth_other split: option.splits)

lemma estimate_step_empty_RTTs:
  "empty_RTTs (estimate_step j st) =
     (empty_RTTs st)(sentByClient (dgs st ! j) :=
        (if RTT (dgs st ! j) = None then empty_RTTs st (sentByClient (dgs st ! j)) @ [j] else []))"
  by (cases "RTT (dgs st ! j)") (simp_all add: estimate_step_None estimate_step_Some)

lemma estimate_step_last_RTT:
  "last_RTT (estimate_step j st) =
     (if RTT (dgs st ! j) = None then last_RTT st
      else (last_RTT st)(sentByClient (dgs st ! j) := RTT (dgs st ! j)))"
  by (cases "RTT (dgs st ! j)") (simp_all add: estimate_step_None estimate_step_Some)

lemma estimate_loop_0: "estimate_loop 0 ms = estimate_init ms"
  by (simp add: estimate_loop_def)

lemma estimate_loop_Suc: "estimate_loop (Suc j) ms = estimate_step j (estimate_loop j ms)"
  by (simp add: estimate_loop_def)

lemma estimate_loop_inv:
  "j \<le> length ms \<Longrightarrow>
   length (dgs (estimate_loop j ms)) = length ms
   \<and> empty_RTTs (estimate_loop j ms) = (\<lambda>w. gap ms w j)
   \<and> last_RTT (estimate_loop j ms) = (\<lambda>w. known ms w j)
   \<and> (\<forall>i. j \<le> i \<or> (\<exists>w. i \<in> set (gap ms w j)) \<longrightarrow> dgs (estimate_loop j ms) ! i = ms ! i)"
proof (induction j)
  case 0
  then show ?case by (simp add: estimate_loop_0 estimate_init_def)
next
  case (Suc j)
  let ?st = "estimate_loop j ms"
  let ?way = "sentByClient (ms ! j)"
  from Suc have ih: "length (dgs ?st) = length ms
      \<and> empty_RTTs ?st = (\<lambda>w. gap ms w j)
      \<and> last_RTT ?st = (\<lambda>w. known ms w j)
      \<and> (\<forall>i. j \<le> i \<or> (\<exists>w. i \<in> set (gap ms w j)) \<longrightarrow> dgs ?st ! i = ms ! i)"
    by simp
  from ih have len: "length (dgs ?st) = length ms" by blast
  from ih have emp: "empty_RTTs ?st = (\<lambda>w. gap ms w j)" by blast
  from ih have lst: "last_RTT ?st = (\<lambda>w. known ms w j)" by blast
  from ih have same: "dgs ?st ! i = ms ! i" if "j \<le> i \<or> (\<exists>w. i \<in> set (gap ms w j))" for i
    using that by blast
  have cur: "dgs ?st ! j = ms ! j" by (simp add: same)
  have 1: "length (dgs (estimate_loop (Suc j) ms)) = length ms"
    by (simp add: estimate_loop_Suc len)
  have 2: "empty_RTTs (estimate_loop (Suc j) ms) = (\<lambda>w. gap ms w (Suc j))"
    by (auto simp add: estimate_loop_Suc estimate_step_empty_RTTs cur emp fun_eq_iff)
  have 3: "last_RTT (estimate_loop (Suc j) ms) = (\<lambda>w. known ms w (Suc j))"
    by (auto simp add: estimate_loop_Suc estimate_step_last_RTT cur lst fun_eq_iff)
  have 4: "dgs (estimate_loop (Suc j) ms) ! i = ms ! i"
    if i: "Suc j \<le> i \<or> (\<exists>w. i \<in> set (gap ms w (Suc j)))" for i
  proof (cases "RTT (ms ! j)")
    case None
    then have "dgs (estimate_loop (Suc j) ms) = dgs ?st"
      by (simp add: estimate_loop_Suc estimate_step_None cur)
    moreover from i None have "j \<le> i \<or> (\<exists>w. i \<in> set (gap ms w j))"
      by (auto split: if_splits)
    ultimately show ?thesis by (simp add: same)
  next
    case (Some r)
    from i Some have old: "j \<le> i \<or> (\<exists>w. i \<in> set (gap ms w j))"
      by (auto split: if_splits)
    from i Some have "i \<notin> set (gap ms ?way j)"
      by (auto split: if_splits dest: gap_less gap_way)
    then have "dgs (estimate_loop (Suc j) ms) ! i = dgs ?st ! i"
      by (simp add: estimate_loop_Suc estimate_step_nth_other cur emp)
    with old show ?thesis by (simp add: same)
  qed
  from 1 2 3 4 show ?case by blast
qed

lemma finish_way_fields [simp]:
  "last_RTT (finish_way w st) = last_RTT st"
  "empty_RTTs (finish_way w st) = empty_RTTs st"
  "length (dgs (finish_way w st)) = length (dgs st)"
  by (simp_all add: finish_way_def split: option.splits)

lemma finish_way_nth_other:
  "i \<notin> set (empty_RTTs st w) \<or> last_RTT st w = None \<Longrightarrow> dgs (finish_way w st) ! i = dgs st ! i"
  by (auto simp add: finish_way_def recopy_nth_other split: option.splits)

lemma finish_way_nth_RTT:
  "i \<in> set (empty_RTTs st w) \<Longrightarrow> last_RTT st w = Some l \<Longrightarrow> i < length (dgs st) \<Longrightarrow>
   RTT (dgs (finish_way w st) ! i) = Some l"
  by (simp add: finish_way_def recopy_nth_RTT)

lemma finish_nth_other:
  "\<forall>w. i \<notin> set (empty_RTTs st w) \<or> last_RTT st w = None \<Longrightarrow>
   dgs (finish_way False (finish_way True st)) ! i = dgs st ! i"
  by (simp add: finish_way_nth_other)

lemma finish_nth_RTT:
  assumes "i \<in> set (empty_RTTs st w)" "i \<notin> set (empty_RTTs st (\<not> w))"
    "last_RTT st w = Some l" "i < length (dgs st)"
  shows "RTT (dgs (finish_way False (finish_way True st)) ! i) = Some l"
proof (cases w)
  case True
  with assms have "RTT (dgs (finish_way True st) ! i) = Some l"
    by (simp add: finish_way_nth_RTT)
  moreover from True assms have "i \<notin> set (empty_RTTs (finish_way True st) False)" by simp
  ultimately show ?thesis by (simp add: finish_way_nth_other)
next
  case False
  with assms have "dgs (finish_way True st) ! i = dgs st ! i"
    by (simp add: finish_way_nth_other)
  with False assms show ?thesis by (simp add: finish_way_nth_RTT)
qed

lemma not_in_gap:
  assumes "i \<le> i'" "i' < j" "sentByClient (ms ! i') = sentByClient (ms ! i)" "RTT (ms ! i') \<noteq> None"
  shows "i \<notin> set (gap ms w j)"
proof (cases "w = sentByClient (ms ! i)")
  case True
  with assms show ?thesis by (simp add: gap_settled)
next
  case False
  then show ?thesis by (auto dest: gap_way)
qed

lemma estimate_loop_settled:
  assumes "i \<le> i'" "i' < j" "sentByClient (ms ! i') = sentByClient (ms ! i)" "RTT (ms ! i') \<noteq> None"
    and "j \<le> j'" "j' \<le> length ms"
  shows "dgs (estimate_loop j' ms) ! i = dgs (estimate_loop j ms) ! i"
  using \<open>j \<le> j'\<close> \<open>j' \<le> length ms\<close>
proof (induction j' rule: dec_induct)
  case base
  show ?case by simp
next
  case (step k)
  then have k: "k \<le> length ms" by simp
  from assms(1-4) step have "i \<notin> set (gap ms (sentByClient (ms ! k)) k)"
    by (intro not_in_gap [of i i']) simp_all
  moreover from estimate_loop_inv [OF k]
  have "empty_RTTs (estimate_loop k ms) = (\<lambda>w. gap ms w k)"
    and "dgs (estimate_loop k ms) ! k = ms ! k" by simp_all
  ultimately have "dgs (estimate_loop (Suc k) ms) ! i = dgs (estimate_loop k ms) ! i"
    by (simp add: estimate_loop_Suc estimate_step_nth_other)
  with step k show ?case by simp
qed

lemma estimate_others_settled:
  assumes "i \<le> i'" "i' < j" "sentByClient (ms ! i') = sentByClient (ms ! i)" "RTT (ms ! i') \<noteq> None"
    and "j \<le> length ms"
  shows "estimate_others ms ! i = dgs (estimate_loop j ms) ! i"
proof -
  let ?st = "estimate_loop (length ms) ms"
  from estimate_loop_inv [of "length ms" ms]
  have emp: "empty_RTTs ?st = (\<lambda>w. gap ms w (length ms))" by simp
  have "i \<notin> set (gap ms w (length ms))" for w
    using assms by (intro not_in_gap [of i i']) simp_all
  then have "estimate_others ms ! i = dgs ?st ! i"
    by (simp add: estimate_others_def finish_nth_other emp)
  also from assms have "\<dots> = dgs (estimate_loop j ms) ! i"
    by (intro estimate_loop_settled [of i i']) simp_all
  finally show ?thesis .
qed

lemma estimate_others_known:
  assumes "i < length ms" "RTT (ms ! i) \<noteq> None"
  shows "estimate_others ms ! i = ms ! i"
proof -
  from assms have i: "i \<le> length ms" "Suc i \<le> length ms" by simp_all
  from assms have "estimate_others ms ! i = dgs (estimate_loop (Suc i) ms) ! i"
    by (intro estimate_others_settled [of i i]) simp_all
  also have "\<dots> = dgs (estimate_loop i ms) ! i"
  proof -
    from estimate_loop_inv [OF i(1)]
    have emp: "empty_RTTs (estimate_loop i ms) = (\<lambda>w. gap ms w i)" by simp
    have "i \<notin> set (gap ms w i)" for w
      using gap_less [of i ms w i] by blast
    then show ?thesis
      by (simp add: estimate_loop_Suc estimate_step_nth_other emp)
  qed
  also from estimate_loop_inv [OF i(1)] have "\<dots> = ms ! i" by simp
  finally show ?thesis .
qed

lemma way_positions_Suc:
  "a \<le> b \<Longrightarrow> way_positions ms w a (Suc b) =
     way_positions ms w a b @ (if sentByClient (ms ! b) = w then [b] else [])"
  by (simp add: way_positions_def)

lemma unset_iff:
  "unset ms (way_positions ms w a b) \<longleftrightarrow>
     (\<forall>j. a \<le> j \<and> j < b \<and> sentByClient (ms ! j) = w \<longrightarrow> RTT (ms ! j) = None)"
  by (auto simp add: unset_def way_positions_def list_all_iff)

lemma in_way_positions:
  "j \<in> set (way_positions ms w a b) \<longleftrightarrow> a \<le> j \<and> j < b \<and> sentByClient (ms ! j) = w"
  by (auto simp add: way_positions_def)

lemma gap_between:
  assumes "sentByClient (ms ! p0) = w" "RTT (ms ! p0) \<noteq> None"
  shows "p0 < p1 \<Longrightarrow> unset ms (way_positions ms w (Suc p0) p1) \<Longrightarrow>
    gap ms w p1 = way_positions ms w (Suc p0) p1 \<and> known ms w p1 = RTT (ms ! p0)"
proof (induction p1)
  case 0
  then show ?case by simp
next
  case (Suc p1)
  show ?case
  proof (cases "p1 = p0")
    case True
    with assms show ?thesis by (simp add: way_positions_def)
  next
    case False
    with Suc.prems have lt: "p0 < p1" and le: "Suc p0 \<le> p1" by simp_all
    from Suc.prems have all: "\<forall>j. Suc p0 \<le> j \<and> j < Suc p1 \<and> sentByClient (ms ! j) = w
        \<longrightarrow> RTT (ms ! j) = None"
      by (simp add: unset_iff)
    then have "unset ms (way_positions ms w (Suc p0) p1)"
      by (simp add: unset_iff)
    with lt have ih: "gap ms w p1 = way_positions ms w (Suc p0) p1"
      "known ms w p1 = RTT (ms ! p0)"
      using Suc.IH by simp_all
    from all le have cur: "sentByClient (ms ! p1) = w \<Longrightarrow> RTT (ms ! p1) = None"
      by simp
    from ih cur le show ?thesis
      by (auto simp add: way_positions_Suc)
  qed
qed

lemma gap_leading:
  "unset ms (way_positions ms w 0 p1) \<Longrightarrow>
     gap ms w p1 = way_positions ms w 0 p1 \<and> known ms w p1 = None"
proof (induction p1)
  case 0
  then show ?case by (simp add: way_positions_def)
next
  case (Suc p1)
  from Suc.prems have all: "\<forall>j. j < Suc p1 \<and> sentByClient (ms ! j) = w \<longrightarrow> RTT (ms ! j) = None"
    by (simp add: unset_iff)
  then have "unset ms (way_positions ms w 0 p1)"
    by (simp add: unset_iff)
  with Suc.IH have ih: "gap ms w p1 = way_positions ms w 0 p1" "known ms w p1 = None"
    by simp_all
  from all have cur: "sentByClient (ms ! p1) = w \<Longrightarrow> RTT (ms ! p1) = None"
    by simp
  from ih cur show ?case
    by (auto simp add: way_positions_Suc)
qed

lemma estimate_step_at_known:
  assumes p1: "p1 < length ms" and r1: "RTT (ms ! p1) = Some r1"
    and i: "i < p1" "sentByClient (ms ! i) = sentByClient (ms ! p1)"
  shows "estimate_others ms ! i =
    (case known ms (sentByClient (ms ! p1)) p1 of
       None \<Rightarrow> recopy (gap ms (sentByClient (ms ! p1)) p1) r1 (dgs (estimate_loop p1 ms))
     | Some l \<Rightarrow> interpolate (gap ms (sentByClient (ms ! p1)) p1) l
         ((r1 - l) div (1 + int (length (gap ms (sentByClient (ms ! p1)) p1)))) 1
         (dgs (estimate_loop p1 ms))) ! i"
proof -
  from p1 have le: "p1 \<le> length ms" "Suc p1 \<le> length ms" by simp_all
  from estimate_loop_inv [OF le(1)]
  have emp: "empty_RTTs (estimate_loop p1 ms) = (\<lambda>w. gap ms w p1)"
    and lst: "last_RTT (estimate_loop p1 ms) = (\<lambda>w. known ms w p1)"
    and cur: "dgs (estimate_loop p1 ms) ! p1 = ms ! p1"
    by simp_all
  from i r1 le have "estimate_others ms ! i = dgs (estimate_loop (Suc p1) ms) ! i"
    by (intro estimate_others_settled [of i p1]) simp_all
  also from r1 cur have "estimate_loop (Suc p1) ms = \<lparr>dgs =
      (case known ms (sentByClient (ms ! p1)) p1 of
         None \<Rightarrow> recopy (gap ms (sentByClient (ms ! p1)) p1) r1 (dgs (estimate_loop p1 ms))
       | Some l \<Rightarrow> interpolate (gap ms (sentByClient (ms ! p1)) p1) l
           ((r1 - l) div (1 + int (length (gap ms (sentByClient (ms ! p1)) p1)))) 1
           (dgs (estimate_loop p1 ms))),
      last_RTT = (last_RTT (estimate_loop p1 ms))(sentByClient (ms ! p1) := Some r1),
      empty_RTTs = (empty_RTTs (estimate_loop p1 ms))(sentByClient (ms ! p1) := [])\<rparr>"
    unfolding estimate_loop_Suc
    by (subst estimate_step_Some [of _ _ r1]) (simp_all add: emp lst split: option.splits)
  finally show ?thesis by simp
qed

lemma interpolated_run:
  assumes "p0 < p1" "p1 < length ms"
    and "sentByClient (ms ! p0) = w" "sentByClient (ms ! p1) = w"
    and "RTT (ms ! p0) = Some r0" "RTT (ms ! p1) = Some r1"
    and "unset ms (way_positions ms w (Suc p0) p1)"
    and "m < length (way_positions ms w (Suc p0) p1)"
  shows "RTT (estimate_others ms ! (way_positions ms w (Suc p0) p1 ! m))
     = Some (r0 + (1 + int m) * ((r1 - r0) div (1 + int (length (way_positions ms w (Suc p0) p1)))))"
proof -
  let ?run = "way_positions ms w (Suc p0) p1"
  from assms have g: "gap ms w p1 = ?run" "known ms w p1 = Some r0"
    using gap_between [of ms p0 w p1] by simp_all
  from assms(8) have "?run ! m \<in> set ?run" by simp
  then have i: "?run ! m < p1" "sentByClient (ms ! (?run ! m)) = w"
    by (simp_all add: in_way_positions)
  from assms(2) have len: "length (dgs (estimate_loop p1 ms)) = length ms"
    using estimate_loop_inv [of p1 ms] by simp
  have d: "distinct ?run" by (simp add: way_positions_def)
  from i assms(2,4,6) have "estimate_others ms ! (?run ! m) =
      interpolate ?run r0 ((r1 - r0) div (1 + int (length ?run))) 1 (dgs (estimate_loop p1 ms))
        ! (?run ! m)"
    by (subst estimate_step_at_known [of p1 ms r1]) (simp_all add: g)
  also from d assms(8) i assms(2) len have "RTT \<dots> = Some (r0 + (1 + int m) * ((r1 - r0) div (1 + int (length ?run))))"
    by (subst interpolate_nth_RTT) simp_all
  finally show ?thesis .
qed

lemma leading_run:
  assumes "p1 < length ms" "sentByClient (ms ! p1) = w" "RTT (ms ! p1) = Some r1"
    and "unset ms (way_positions ms w 0 p1)"
    and "j \<in> set (way_positions ms w 0 p1)"
  shows "RTT (estimate_others ms ! j) = Some r1"
proof -
  from assms have g: "gap ms w p1 = way_positions ms w 0 p1" "known ms w p1 = None"
    using gap_leading [of ms w p1] by simp_all
  from assms(5) have j: "j < p1" "sentByClient (ms ! j) = w"
    by (simp_all add: in_way_positions)
  from assms(1) have len: "length (dgs (estimate_loop p1 ms)) = length ms"
    using estimate_loop_inv [of p1 ms] by simp
  from j assms(1-3) have "estimate_others ms ! j =
      recopy (way_positions ms w 0 p1) r1 (dgs (estimate_loop p1 ms)) ! j"
    by (subst estimate_step_at_known [of p1 ms r1]) (simp_all add: g)
  also from assms(5) j assms(1) len have "RTT \<dots> = Some r1"
    by (subst recopy_nth_RTT) simp_all
  finally show ?thesis .
qed

lemma trailing_run:
  assumes "p0 < length ms" "sentByClient (ms ! p0) = w" "RTT (ms ! p0) = Some r0"
    and "unset ms (way_positions ms w (Suc p0) (length ms))"
    and "j \<in> set (way_positions ms w (Suc p0) (length ms))"
  shows "RTT (estimate_others ms ! j) = Some r0"
proof -
  let ?st = "estimate_loop (length ms) ms"
  from assms have g: "gap ms w (length ms) = way_positions ms w (Suc p0) (length ms)"
    "known ms w (length ms) = Some r0"
    using gap_between [of ms p0 w "length ms"] by simp_all
  from estimate_loop_inv [of "length ms" ms]
  have emp: "empty_RTTs ?st = (\<lambda>w. gap ms w (length ms))"
    and lst: "last_RTT ?st = (\<lambda>w. known ms w (length ms))"
    and len: "length (dgs ?st) = length ms"
    by simp_all
  from assms(5) have j: "j < length ms" "sentByClient (ms ! j) = w"
    by (simp_all add: in_way_positions)
  from j have "j \<notin> set (gap ms (\<not> w) (length ms))"
    by (auto dest: gap_way)
  with assms(5) j show ?thesis
    unfolding estimate_others_def
    by (intro finish_nth_RTT [of _ _ w]) (simp_all add: emp lst len g)
qed

lemma known_none:
  "unset ms (way_positions ms w 0 n) \<Longrightarrow> j \<le> n \<Longrightarrow> known ms w j = None"
  by (induction j) (auto simp add: unset_iff)

lemma estimate_loop_no_known:
  assumes "unset ms (way_positions ms w 0 (length ms))" "sentByClient (ms ! i) = w"
  shows "j \<le> length ms \<Longrightarrow> dgs (estimate_loop j ms) ! i = ms ! i"
proof (induction j)
  case 0
  then show ?case by (simp add: estimate_loop_0 estimate_init_def)
next
  case (Suc j)
  then have j: "j \<le> length ms" "j < length ms" by simp_all
  from estimate_loop_inv [OF j(1)]
  have emp: "empty_RTTs (estimate_loop j ms) = (\<lambda>w. gap ms w j)"
    and cur: "dgs (estimate_loop j ms) ! j = ms ! j"
    by simp_all
  have "dgs (estimate_loop (Suc j) ms) ! i = dgs (estimate_loop j ms) ! i"
  proof (cases "sentByClient (ms ! j) = w")
    case True
    with assms(1) j have "RTT (ms ! j) = None" by (simp add: unset_iff)
    then show ?thesis by (simp add: estimate_loop_Suc estimate_step_None cur)
  next
    case False
    with assms(2) have "i \<notin> set (gap ms (sentByClient (ms ! j)) j)"
      by (auto dest: gap_way)
    then show ?thesis by (simp add: estimate_loop_Suc estimate_step_nth_other cur emp)
  qed
  with Suc j show ?case by simp
qed

lemma no_known_way:
  assumes "unset ms (way_positions ms w 0 (length ms))"
    and "j \<in> set (way_positions ms w 0 (length ms))"
  shows "estimate_others ms ! j = ms ! j"
proof -
  let ?st = "estimate_loop (length ms) ms"
  from estimate_loop_inv [of "length ms" ms]
  have emp: "empty_RTTs ?st = (\<lambda>w. gap ms w (length ms))"
    and lst: "last_RTT ?st = (\<lambda>w. known ms w (length ms))"
    by simp_all
  from assms(2) have j: "j < length ms" "sentByClient (ms ! j) = w"
    by (simp_all add: in_way_positions)
  from assms(1) have "known ms w (length ms) = None" by (simp add: known_none)
  moreover from j have "j \<notin> set (gap ms (\<not> w) (length ms))"
    by (auto dest: gap_way)
  ultimately have "j \<notin> set (empty_RTTs ?st w') \<or> last_RTT ?st w' = None" for w'
    unfolding emp lst by (cases "w' = w") auto
  then have "estimate_others ms ! j = dgs ?st ! j"
    by (simp add: estimate_others_def finish_nth_other)
  also from assms(1) j have "\<dots> = ms ! j"
    by (intro estimate_loop_no_known [of ms w]) simp_all
  finally show ?thesis .
qed

text \<open>
  Claim C5, as the code has it. For the sequence \<open>ms\<close> that the forward loop finds and
  each direction: (1) the datagrams of a run between two known RTTs \<open>r0\<close> (at \<open>p0\<close>) and
  \<open>r1\<close> (at \<open>p1\<close>) get, at the 1-indexed position \<open>i\<close> of the run of length \<open>k\<close>, the
  value \<open>r0 + i * ((r1 - r0) div (k + 1))\<close>: the step is the floor, in whole
  microseconds, of \<open>(r1 - r0) / (k + 1)\<close>; (2) a leading run before the first known RTT
  gets that RTT; (3) a trailing run after the last known RTT gets that RTT; (4) in a
  direction with no known RTT every datagram stays without RTT.
\<close>

theorem interpolation_pass:
  "(p0 < p1 \<and> p1 < length ms \<and> sentByClient (ms ! p0) = w \<and> sentByClient (ms ! p1) = w
      \<and> RTT (ms ! p0) = Some r0 \<and> RTT (ms ! p1) = Some r1
      \<and> unset ms (way_positions ms w (p0 + 1) p1)
      \<and> 1 \<le> i \<and> i \<le> length (way_positions ms w (p0 + 1) p1)
    \<longrightarrow> RTT (estimate_others ms ! (way_positions ms w (p0 + 1) p1 ! (i - 1)))
          = Some (r0 + int i * ((r1 - r0) div (int (length (way_positions ms w (p0 + 1) p1)) + 1))))
   \<and> (q1 < length ms \<and> sentByClient (ms ! q1) = wa \<and> RTT (ms ! q1) = Some ra
      \<and> unset ms (way_positions ms wa 0 q1) \<and> ja \<in> set (way_positions ms wa 0 q1)
    \<longrightarrow> RTT (estimate_others ms ! ja) = Some ra)
   \<and> (q0 < length ms \<and> sentByClient (ms ! q0) = wb \<and> RTT (ms ! q0) = Some rb
      \<and> unset ms (way_positions ms wb (q0 + 1) (length ms))
      \<and> jb \<in> set (way_positions ms wb (q0 + 1) (length ms))
    \<longrightarrow> RTT (estimate_others ms ! jb) = Some rb)
   \<and> (unset ms (way_positions ms wc 0 (length ms))
      \<and> jc \<in> set (way_positions ms wc 0 (length ms))
    \<longrightarrow> RTT (estimate_others ms ! jc) = None)"
proof (intro conjI impI)
  assume a: "p0 < p1 \<and> p1 < length ms \<and> sentByClient (ms ! p0) = w \<and> sentByClient (ms ! p1) = w
      \<and> RTT (ms ! p0) = Some r0 \<and> RTT (ms ! p1) = Some r1
      \<and> unset ms (way_positions ms w (p0 + 1) p1)
      \<and> 1 \<le> i \<and> i \<le> length (way_positions ms w (p0 + 1) p1)"
  then have "i - 1 < length (way_positions ms w (Suc p0) p1)" by auto
  with a have "RTT (estimate_others ms ! (way_positions ms w (Suc p0) p1 ! (i - 1)))
     = Some (r0 + (1 + int (i - 1)) * ((r1 - r0) div (1 + int (length (way_positions ms w (Suc p0) p1)))))"
    by (intro interpolated_run) simp_all
  moreover from a have "1 + int (i - 1) = int i" by simp
  ultimately show "RTT (estimate_others ms ! (way_positions ms w (p0 + 1) p1 ! (i - 1)))
          = Some (r0 + int i * ((r1 - r0) div (int (length (way_positions ms w (p0 + 1) p1)) + 1)))"
    by (simp add: add.commute)
next
  assume "q1 < length ms \<and> sentByClient (ms ! q1) = wa \<and> RTT (ms ! q1) = Some ra
      \<and> unset ms (way_positions ms wa 0 q1) \<and> ja \<in> set (way_positions ms wa 0 q1)"
  then show "RTT (estimate_others ms ! ja) = Some ra"
    by (intro leading_run [of q1 ms wa]) simp_all
next
  assume "q0 < length ms \<and> sentByClient (ms ! q0) = wb \<and> RTT (ms ! q0) = Some rb
      \<and> unset ms (way_positions ms wb (q0 + 1) (length ms))
      \<and> jb \<in> set (way_positions ms wb (q0 + 1) (length ms))"
  then show "RTT (estimate_others ms ! jb) = Some rb"
    by (intro trailing_run [of q0 ms wb]) simp_all
next
  assume c: "unset ms (way_positions ms wc 0 (length ms))
      \<and> jc \<in> set (way_positions ms wc 0 (length ms))"
  then have "estimate_others ms ! jc = ms ! jc"
    by (intro no_known_way [of ms wc]) simp_all
  moreover from c have "RTT (ms ! jc) = None"
    by (auto simp add: unset_def list_all_iff)
  ultimately show "RTT (estimate_others ms ! jc) = None" by simp
qed

theorem interpolation_pass_witness:
  "((1::nat) < 5 \<and> 5 < length runs_example
      \<and> sentByClient (runs_example ! 1) = True \<and> sentByClient (runs_example ! 5) = True
      \<and> RTT (runs_example ! 1) = Some 10 \<and> RTT (runs_example ! 5) = Some 40
      \<and> unset runs_example (way_positions runs_example True (1 + 1) 5)
      \<and> way_positions runs_example True (1 + 1) 5 = [2, 4]
      \<and> RTT (estimate_others runs_example ! 4) = Some (10 + 2 * ((40 - 10) div (2 + 1))))
   \<and> (unset runs_example (way_positions runs_example True 0 1)
      \<and> 0 \<in> set (way_positions runs_example True 0 1)
      \<and> RTT (estimate_others runs_example ! 0) = Some 10)
   \<and> (unset runs_example (way_positions runs_example True (5 + 1) (length runs_example))
      \<and> 6 \<in> set (way_positions runs_example True (5 + 1) (length runs_example))
      \<and> RTT (estimate_others runs_example ! 6) = Some 40)
   \<and> (unset runs_example (way_positions runs_example False 0 (length runs_example))
      \<and> 3 \<in> set (way_positions runs_example False 0 (length runs_example))
      \<and> RTT (estimate_others runs_example ! 3) = None)"
proof -
  have a: "(1::nat) < 5" "5 < length runs_example"
    "sentByClient (runs_example ! 1) = True" "sentByClient (runs_example ! 5) = True"
    "RTT (runs_example ! 1) = Some 10" "RTT (runs_example ! 5) = Some 40"
    by (simp_all add: runs_example_def dg_def)
  have run: "way_positions runs_example True (1 + 1) 5 = [2, 4]"
    by code_simp
  have ua: "unset runs_example (way_positions runs_example True (1 + 1) 5)"
    by code_simp
  have b: "unset runs_example (way_positions runs_example True 0 1)"
    "0 \<in> set (way_positions runs_example True 0 1)"
    by code_simp+
  have c: "unset runs_example (way_positions runs_example True (5 + 1) (length runs_example))"
    "6 \<in> set (way_positions runs_example True (5 + 1) (length runs_example))"
    by code_simp+
  have d: "unset runs_example (way_positions runs_example False 0 (length runs_example))"
    "3 \<in> set (way_positions runs_example False 0 (length runs_example))"
    by code_simp+
  from interpolation_pass [where ms = runs_example and ?p0.0 = 1 and ?p1.0 = 5 and w = True
      and ?r0.0 = 10 and ?r1.0 = 40 and i = 2 and ?q1.0 = 1 and wa = True and ra = 10 and ja = 0
      and ?q0.0 = 5 and wb = True and rb = 40 and jb = 6 and wc = False and jc = 3]
    a run ua b c d
  show ?thesis by simp
qed

text \<open>
  The exact value \<open>r0 + i * (r1 - r0) / (k + 1)\<close> of claim C5 is not what a run gets:
  between RTTs of 200000 and 300001 microseconds a single datagram gets 250000
  microseconds, not 250000.5.
\<close>

theorem interpolation_exact_counterexample:
  "(0::nat) < 2 \<and> 2 < length gap_example
   \<and> sentByClient (gap_example ! 0) = True \<and> sentByClient (gap_example ! 2) = True
   \<and> RTT (gap_example ! 0) = Some 200000 \<and> RTT (gap_example ! 2) = Some 300001
   \<and> unset gap_example (way_positions gap_example True (0 + 1) 2)
   \<and> way_positions gap_example True (0 + 1) 2 = [1]
   \<and> map_option rat_of_int (RTT (estimate_others gap_example ! 1))
       \<noteq> Some (200000 + 1 * (300001 - 200000) / (1 + 1))"
  by code_simp

section \<open>Properties of the connection-type classifier\<close>

lemma sum_payload_nonneg:
  "\<forall>d \<in> set ds. 0 \<le> payloadLen d \<Longrightarrow> 0 \<le> sum_list (map payloadLen (filter P ds))"
  by (rule sum_list_nonneg) auto

lemma sent_nonneg:
  assumes "\<forall>d \<in> set ds. 0 \<le> payloadLen d"
  shows "0 \<le> server_sent ds" "0 \<le> client_sent ds"
  using assms by (simp_all add: server_sent_def client_sent_def sum_payload_nonneg)

lemma sent_total:
  "server_sent ds + client_sent ds = of_int (sum_list (map payloadLen ds))"
  by (induction ds) (simp_all add: server_sent_def client_sent_def)

lemma compute_asymetry_value:
  assumes "\<forall>d \<in> set ds. 0 \<le> payloadLen d"
  shows "compute_asymetry ds =
           Inr (if server_sent ds + client_sent ds = 0 then 0
                else server_sent ds / (server_sent ds + client_sent ds))"
proof -
  from assms have s: "0 \<le> server_sent ds" and c: "0 \<le> client_sent ds"
    by (rule sent_nonneg)+
  show ?thesis
  proof (cases "server_sent ds = 0")
    case True
    then show ?thesis by (simp add: compute_asymetry_def)
  next
    case False
    with s c have "server_sent ds + client_sent ds \<noteq> 0" by simp
    with False show ?thesis by (simp add: compute_asymetry_def float_div_def)
  qed
qed

text \<open>
  Claim C7. With payload lengths that are not negative, \<^verbatim>\<open>compute_asymetry\<close> does not
  raise: the ratio is the payload bytes of the server over the payload bytes of both
  directions (their sum is the sum of \<^verbatim>\<open>payload_len\<close> over all datagrams), and it is 0
  when that total is zero.
\<close>

theorem compute_asymetry_guarded:
  assumes "\<forall>d \<in> set ds. 0 \<le> payloadLen d"
  shows "compute_asymetry ds =
           Inr (if server_sent ds + client_sent ds = 0 then 0
                else server_sent ds / (server_sent ds + client_sent ds))
         \<and> server_sent ds + client_sent ds = of_int (sum_list (map payloadLen ds))"
  using compute_asymetry_value [OF assms] by (simp add: sent_total)

theorem compute_asymetry_guarded_witness:
  "map payloadLen shell_example = [10, 10]
   \<and> compute_asymetry shell_example = Inr (1 / 2)
   \<and> compute_asymetry [] = Inr 0"
proof -
  have h: "\<forall>d \<in> set shell_example. 0 \<le> payloadLen d"
    by (simp add: shell_example_def)
  have e: "\<forall>d \<in> set ([] :: datagram list). 0 \<le> payloadLen d" by simp
  have v: "server_sent shell_example = 10" "client_sent shell_example = 10"
    "server_sent [] = 0" "client_sent [] = 0"
    by (simp_all add: shell_example_def server_sent_def client_sent_def)
  have p: "map payloadLen shell_example = [10, 10]"
    by (simp add: shell_example_def)
  from compute_asymetry_guarded [OF h] compute_asymetry_guarded [OF e] p show ?thesis
    unfolding v by simp
qed

lemma reply_analysis_labels:
  "reply_analysis ds = Inr l \<Longrightarrow> l = ''shell'' \<or> l = ''reverse shell'' \<or> l = ''tunnel''"
  by (auto simp add: reply_analysis_def name_def split: sum.splits if_splits)

lemma reply_analysis_not_scp:
  "reply_analysis ds \<noteq> Inr ''scp (down)''" "reply_analysis ds \<noteq> Inr ''scp (up)''"
  using reply_analysis_labels [of ds "''scp (down)''"] reply_analysis_labels [of ds "''scp (up)''"]
  by auto

text \<open>
  Claim C8. Whenever the asymetry ratio is computed, the label is \<^verbatim>\<open>scp (down)\<close> exactly
  when the ratio is greater than 0.5 and at least 0.95, and \<^verbatim>\<open>scp (up)\<close> exactly when it
  is at most 0.5 and at most 0.05; for a ratio strictly between 0.05 and 0.95 the result
  of \<^verbatim>\<open>analyse\<close> is that of the analysis of the times to reply.
\<close>

theorem scp_step:
  assumes "compute_asymetry ds = Inr ratio"
  shows "(connection_type_analyse ds = Inr ''scp (down)'' \<longleftrightarrow> ratio > 1 / 2 \<and> ratio \<ge> 95 / 100)
       \<and> (connection_type_analyse ds = Inr ''scp (up)'' \<longleftrightarrow> ratio \<le> 1 / 2 \<and> ratio \<le> 5 / 100)
       \<and> (5 / 100 < ratio \<and> ratio < 95 / 100
            \<longrightarrow> connection_type_analyse ds = reply_analysis ds)"
proof (intro conjI)
  show "connection_type_analyse ds = Inr ''scp (down)'' \<longleftrightarrow> ratio > 1 / 2 \<and> ratio \<ge> 95 / 100"
    using assms reply_analysis_not_scp(1) [of ds]
    by (simp add: connection_type_analyse_def scp_up_min_asymetry_def scp_down_max_asymetry_def)
  show "connection_type_analyse ds = Inr ''scp (up)'' \<longleftrightarrow> ratio \<le> 1 / 2 \<and> ratio \<le> 5 / 100"
    using assms reply_analysis_not_scp(2) [of ds]
    by (simp add: connection_type_analyse_def scp_up_min_asymetry_def scp_down_max_asymetry_def)
  show "5 / 100 < ratio \<and> ratio < 95 / 100 \<longrightarrow> connection_type_analyse ds = reply_analysis ds"
    using assms
    by (simp add: connection_type_analyse_def scp_up_min_asymetry_def scp_down_max_asymetry_def)
qed

theorem scp_step_witness:
  "compute_asymetry scp_down_example = Inr 1
   \<and> connection_type_analyse scp_down_example = Inr ''scp (down)''
   \<and> compute_asymetry scp_up_example = Inr 0
   \<and> connection_type_analyse scp_up_example = Inr ''scp (up)''
   \<and> compute_asymetry shell_example = Inr (1 / 2)
   \<and> connection_type_analyse shell_example = reply_analysis shell_example"
proof -
  have d: "compute_asymetry scp_down_example = Inr 1"
    by (simp add: compute_asymetry_def server_sent_def client_sent_def float_div_def
        scp_down_example_def)
  have u: "compute_asymetry scp_up_example = Inr 0"
    by (simp add: compute_asymetry_def server_sent_def client_sent_def float_div_def
        scp_up_example_def)
  have s: "compute_asymetry shell_example = Inr (1 / 2)"
    by (simp add: compute_asymetry_def server_sent_def client_sent_def float_div_def
        shell_example_def)
  from scp_step [OF d] scp_step [OF u] scp_step [OF s] d u s show ?thesis by simp
qed

lemma reply_step_ok:
  assumes "payloadLen d \<noteq> 0 \<longrightarrow> RTT d \<noteq> None"
    and "\<forall>w l. last_datagram st w = Some l \<longrightarrow> RTT l \<noteq> None"
  shows "\<exists>st'. reply_step d st = Inr st' \<and> (\<forall>w l. last_datagram st' w = Some l \<longrightarrow> RTT l \<noteq> None)"
proof (cases "payloadLen d = 0")
  case True
  with assms(2) show ?thesis by (simp add: reply_step_def)
next
  case False
  with assms(1) obtain r where r: "RTT d = Some r" by auto
  show ?thesis
  proof (cases "last_datagram st (\<not> sentByClient d)")
    case None
    with False r assms(2) show ?thesis
      by (auto simp add: reply_step_def Let_def)
  next
    case (Some l)
    with assms(2) obtain rl where "RTT l = Some rl" by fastforce
    with Some False r assms(2) show ?thesis
      by (auto simp add: reply_step_def Let_def)
  qed
qed

lemma reply_loop_ok:
  "\<forall>d \<in> set ds. payloadLen d \<noteq> 0 \<longrightarrow> RTT d \<noteq> None \<Longrightarrow>
   \<forall>w l. last_datagram st w = Some l \<longrightarrow> RTT l \<noteq> None \<Longrightarrow>
   \<exists>st'. reply_loop ds st = Inr st'"
proof (induction ds arbitrary: st)
  case Nil
  then show ?case by simp
next
  case (Cons d ds)
  from Cons.prems obtain st1 where st1: "reply_step d st = Inr st1"
    "\<forall>w l. last_datagram st1 w = Some l \<longrightarrow> RTT l \<noteq> None"
    using reply_step_ok [of d st] by auto
  from Cons.prems have "\<forall>d \<in> set ds. payloadLen d \<noteq> 0 \<longrightarrow> RTT d \<noteq> None" by simp
  with st1(2) obtain st' where "reply_loop ds st1 = Inr st'"
    using Cons.IH by blast
  with st1(1) show ?case by simp
qed

lemma compute_time_to_reply_ok:
  assumes "\<forall>d \<in> set ds. payloadLen d \<noteq> 0 \<longrightarrow> RTT d \<noteq> None"
  shows "\<exists>ttr. compute_time_to_reply ds = Inr ttr"
proof -
  from assms obtain st' where
    "reply_loop ds \<lparr>time_to_reply = (\<lambda>way. []), last_datagram = (\<lambda>way. None)\<rparr> = Inr st'"
    using reply_loop_ok [of ds "\<lparr>time_to_reply = (\<lambda>way. []), last_datagram = (\<lambda>way. None)\<rparr>"]
    by auto
  then show ?thesis by (simp add: compute_time_to_reply_def)
qed

lemma connection_type_analyse_labels:
  assumes "compute_asymetry ds = Inr ratio" "compute_time_to_reply ds = Inr ttr"
  shows "connection_type_analyse ds \<in>
           Inr ` {''scp (up)'', ''scp (down)'', ''shell'', ''reverse shell'', ''tunnel''}"
  using assms
  by (simp add: connection_type_analyse_def reply_analysis_def name_def)

text \<open>
  Claim C9, as the code has it. Whenever the asymetry and the times to reply are
  computed without an exception: if the asymetry test does not decide, the label is
  \<^verbatim>\<open>shell\<close> when there are replies of the server and the fraction of them taking at most
  0.7 RTT is at least 0.6, else \<^verbatim>\<open>reverse shell\<close> under the same test on the replies of
  the client, else \<^verbatim>\<open>tunnel\<close>; and the result is one of the five labels. Both are
  computed without an exception when no payload length is negative and every datagram
  with a payload has an RTT.
\<close>

theorem reply_latency_labels:
  "(compute_asymetry ds = Inr ratio \<and> compute_time_to_reply ds = Inr ttr \<longrightarrow>
      (5 / 100 < ratio \<and> ratio < 95 / 100 \<longrightarrow>
         connection_type_analyse ds =
           Inr (if ttr True \<noteq> []
                   \<and> 6 / 10 \<le> of_nat (length (filter (\<lambda>t. t \<le> 7 / 10) (ttr True)))
                               / (of_nat (length (ttr True)) :: rat)
                then ''shell''
                else if ttr False \<noteq> []
                   \<and> 6 / 10 \<le> of_nat (length (filter (\<lambda>t. t \<le> 7 / 10) (ttr False)))
                               / (of_nat (length (ttr False)) :: rat)
                then ''reverse shell''
                else ''tunnel''))
      \<and> connection_type_analyse ds \<in>
           Inr ` {''scp (up)'', ''scp (down)'', ''shell'', ''reverse shell'', ''tunnel''})
   \<and> ((\<forall>d \<in> set ds. 0 \<le> payloadLen d \<and> (payloadLen d \<noteq> 0 \<longrightarrow> RTT d \<noteq> None)) \<longrightarrow>
        (\<exists>ratio ttr. compute_asymetry ds = Inr ratio \<and> compute_time_to_reply ds = Inr ttr))"
proof (intro conjI impI)
  assume a: "compute_asymetry ds = Inr ratio \<and> compute_time_to_reply ds = Inr ttr"
  then show "connection_type_analyse ds \<in>
           Inr ` {''scp (up)'', ''scp (down)'', ''shell'', ''reverse shell'', ''tunnel''}"
    by (intro connection_type_analyse_labels [of ds ratio ttr]) simp_all
  assume "5 / 100 < ratio \<and> ratio < 95 / 100"
  with a have "connection_type_analyse ds = reply_analysis ds"
    by (simp add: connection_type_analyse_def scp_up_min_asymetry_def scp_down_max_asymetry_def)
  with a show "connection_type_analyse ds =
           Inr (if ttr True \<noteq> []
                   \<and> 6 / 10 \<le> of_nat (length (filter (\<lambda>t. t \<le> 7 / 10) (ttr True)))
                               / (of_nat (length (ttr True)) :: rat)
                then ''shell''
                else if ttr False \<noteq> []
                   \<and> 6 / 10 \<le> of_nat (length (filter (\<lambda>t. t \<le> 7 / 10) (ttr False)))
                               / (of_nat (length (ttr False)) :: rat)
                then ''reverse shell''
                else ''tunnel'')"
    by (simp add: reply_analysis_def enough_replies_def name_def max_time_to_reply_def
        min_replies_def shell_max_time_to_reply_def shell_min_replies_def
        rshell_max_time_to_reply_def rshell_min_replies_def)
next
  assume w: "\<forall>d \<in> set ds. 0 \<le> payloadLen d \<and> (payloadLen d \<noteq> 0 \<longrightarrow> RTT d \<noteq> None)"
  then have "\<forall>d \<in> set ds. 0 \<le> payloadLen d" by simp
  then have "\<exists>ratio. compute_asymetry ds = Inr ratio"
    using compute_asymetry_value [of ds] by blast
  moreover from w have "\<exists>ttr. compute_time_to_reply ds = Inr ttr"
    by (intro compute_time_to_reply_ok) simp
  ultimately show "\<exists>ratio ttr. compute_asymetry ds = Inr ratio \<and> compute_time_to_reply ds = Inr ttr"
    by blast
qed

theorem reply_latency_labels_witness:
  "compute_asymetry shell_example = Inr (1 / 2)
   \<and> compute_time_to_reply shell_example = Inr ((\<lambda>way. [])(True := [1 / 2]))
   \<and> (5 / 100 < (1 / 2 :: rat) \<and> (1 / 2 :: rat) < 95 / 100)
   \<and> connection_type_analyse shell_example = Inr ''shell''
   \<and> map payloadLen shell_example = [10, 10]
   \<and> map RTT shell_example = [Some 1000000, Some 1000000]"
proof -
  have s: "compute_asymetry shell_example = Inr (1 / 2)"
    by (simp add: compute_asymetry_def server_sent_def client_sent_def float_div_def
        shell_example_def)
  have t: "compute_time_to_reply shell_example = Inr ((\<lambda>way. [])(True := [1 / 2]))"
    by (simp add: compute_time_to_reply_def reply_step_def shell_example_def total_seconds_def
      Let_def)
  have w: "\<forall>d \<in> set shell_example. 0 \<le> payloadLen d \<and> (payloadLen d \<noteq> 0 \<longrightarrow> RTT d \<noteq> None)"
    by (simp add: shell_example_def)
  have p: "map payloadLen shell_example = [10, 10]"
    "map RTT shell_example = [Some 1000000, Some 1000000]"
    by (simp_all add: shell_example_def)
  from reply_latency_labels [of shell_example "1 / 2" "(\<lambda>way. [])(True := [1 / 2])"] s t w p
  show ?thesis by simp
qed

text \<open>
  Without that proviso the classifier does not always end with a label: on a payload of
  the client whose RTT is unset, followed by a reply of the server, the asymetry test
  does not decide and \<^verbatim>\<open>last_datagram[way].rtt.total_seconds()\<close> raises.
\<close>

theorem unset_rtt_counterexample:
  "compute_asymetry unset_rtt_example = Inr (1 / 2)
   \<and> connection_type_analyse unset_rtt_example = Inl AttributeError"
  by (simp add: connection_type_analyse_def compute_asymetry_def server_sent_def
      client_sent_def float_div_def reply_analysis_def compute_time_to_reply_def
      reply_step_def Let_def unset_rtt_example_def scp_up_min_asymetry_def
      scp_down_max_asymetry_def)

section \<open>Properties of the stepping-stone detector\<close>

lemma length_IATs_loop:
  "length (IATs_loop ds ld IATs) =
     length IATs
     + (case ld of
          None \<Rightarrow> length (filter (\<lambda>d. sentByClient d \<and> payloadLen d \<noteq> 0) ds) - 1
        | Some l \<Rightarrow> length (filter (\<lambda>d. sentByClient d \<and> payloadLen d \<noteq> 0) ds))"
  by (induction ds arbitrary: ld IATs) (auto split: option.splits)

lemma length_IATs:
  "length (IATs_loop (datagrams c) None []) = length (ssd_datagrams (ssd_init c)) - 1"
  by (simp add: length_IATs_loop ssd_init_def)

lemma length_RTT_seconds: "RTT_seconds ds = Inr rs \<Longrightarrow> length rs = length ds"
  by (induction ds arbitrary: rs) (auto split: option.splits sum.splits)

lemma RTT_seconds_error: "RTT_seconds ds = Inl e \<Longrightarrow> e = AttributeError"
  by (induction ds) (auto split: option.splits sum.splits)

lemma RTT_seconds_set:
  "(\<exists>rs. RTT_seconds ds = Inr rs) \<longleftrightarrow> (\<forall>d \<in> set ds. RTT d \<noteq> None)"
  by (induction ds) (auto split: option.splits sum.splits)

lemma compare_loop_in_range:
  "\<forall>i \<in> set is. i < length IATs \<Longrightarrow> \<exists>compt'. compare_loop RTTs IATs is compt = Inr compt'"
  by (induction "is" arbitrary: compt) (auto simp add: close_enough_def)

lemma compare_RTT_IAT_cases:
  "compare_RTT_IAT (ssd_init c) =
     (Inl AttributeError, [Debug ''Computation of RTT & IAT similarity''])
   \<and> \<not> (\<forall>d \<in> set (ssd_datagrams (ssd_init c)). RTT d \<noteq> None)
   \<or> compare_RTT_IAT (ssd_init c) =
     (Inr None, [Debug ''Computation of RTT & IAT similarity'',
                 Debug ''Not enough useful datagrams to make calculation''])
   \<and> (\<forall>d \<in> set (ssd_datagrams (ssd_init c)). RTT d \<noteq> None)
   \<and> length (ssd_datagrams (ssd_init c)) - 1 < 20
   \<or> (\<exists>q. compare_RTT_IAT (ssd_init c) =
     (Inr (Some (q \<le> IAT_RTT_DIFFERENT)),
      [Debug ''Computation of RTT & IAT similarity'', Debug_similarity (q * 100)]))
   \<and> (\<forall>d \<in> set (ssd_datagrams (ssd_init c)). RTT d \<noteq> None)
   \<and> 20 \<le> length (ssd_datagrams (ssd_init c)) - 1"
proof (cases "RTT_seconds (ssd_datagrams (ssd_init c))")
  case (Inl e)
  then have "e = AttributeError" by (rule RTT_seconds_error)
  moreover from Inl have "\<not> (\<forall>d \<in> set (ssd_datagrams (ssd_init c)). RTT d \<noteq> None)"
    using RTT_seconds_set [of "ssd_datagrams (ssd_init c)"] by auto
  ultimately show ?thesis using Inl by (simp add: compare_RTT_IAT_def)
next
  case (Inr rs)
  then have len: "length rs = length (ssd_datagrams (ssd_init c))"
    by (rule length_RTT_seconds)
  from Inr have set: "\<forall>d \<in> set (ssd_datagrams (ssd_init c)). RTT d \<noteq> None"
    using RTT_seconds_set [of "ssd_datagrams (ssd_init c)"] by auto
  show ?thesis
  proof (cases "length (drop 1 rs) < 20")
    case True
    with Inr len set show ?thesis by (simp add: compare_RTT_IAT_def)
  next
    case False
    let ?IATs = "IATs_loop (datagrams c) None []"
    have "length ?IATs = length (drop 1 rs)" by (simp add: length_IATs len)
    then have "\<forall>i \<in> set [0..<length (drop 1 rs)]. i < length ?IATs" by simp
    then obtain compt where compt:
      "compare_loop (drop 1 rs) ?IATs [0..<length (drop 1 rs)] 0 = Inr compt"
      using compare_loop_in_range by blast
    from False have nz: "(of_nat (length (drop 1 rs)) :: rat) \<noteq> 0" by simp
    have conn: "datagrams (ssd_connection (ssd_init c)) = datagrams c"
      by (simp add: ssd_init_def)
    from Inr False compt nz
    have "compare_RTT_IAT (ssd_init c) =
      (Inr (Some (compt / of_nat (length (drop 1 rs)) \<le> IAT_RTT_DIFFERENT)),
       [Debug ''Computation of RTT & IAT similarity'',
        Debug_similarity (compt / of_nat (length (drop 1 rs)) * 100)])"
      unfolding compare_RTT_IAT_def Let_def conn float_div_def by simp
    with False len set show ?thesis by auto
  qed
qed

lemma compare_RTT_IAT_log:
  "Debug ''Checking if n-modulus distribution.'' \<notin> set (snd (compare_RTT_IAT s))"
  by (simp add: compare_RTT_IAT_def Let_def split: sum.splits)

lemma is_PS_modally_distributed_log:
  "Debug ''Checking if n-modulus distribution.'' \<in> set (snd (is_PS_modally_distributed s))"
  by (simp add: is_PS_modally_distributed_def Let_def split: sum.splits)

lemma inconclusive_iff:
  "fst (compare_RTT_IAT s) = Inr None \<longleftrightarrow>
     (\<forall>d \<in> set (ssd_datagrams s). RTT d \<noteq> None) \<and> length (ssd_datagrams s) - 1 < 20"
proof (cases "RTT_seconds (ssd_datagrams s)")
  case (Inl e)
  then have "\<not> (\<forall>d \<in> set (ssd_datagrams s). RTT d \<noteq> None)"
    using RTT_seconds_set [of "ssd_datagrams s"] by auto
  with Inl show ?thesis by (simp add: compare_RTT_IAT_def)
next
  case (Inr rs)
  then have len: "length rs = length (ssd_datagrams s)"
    by (rule length_RTT_seconds)
  from Inr have set: "\<forall>d \<in> set (ssd_datagrams s). RTT d \<noteq> None"
    using RTT_seconds_set [of "ssd_datagrams s"] by auto
  from Inr len set show ?thesis
    by (simp add: compare_RTT_IAT_def Let_def split: sum.splits)
qed

text \<open>
  Claim C1, as the code has it. The verdict of \<^verbatim>\<open>is_stepping_stone\<close> is: true when
  \<^verbatim>\<open>compare_RTT_IAT\<close> returns true, and nothing more is logged, so
  \<^verbatim>\<open>is_PS_modally_distributed\<close> is not run; the result of \<^verbatim>\<open>is_PS_modally_distributed\<close>
  when \<^verbatim>\<open>compare_RTT_IAT\<close> returns false; and false, again with no run of
  \<^verbatim>\<open>is_PS_modally_distributed\<close>, when \<^verbatim>\<open>compare_RTT_IAT\<close> returns \<^verbatim>\<open>None\<close>, which it does
  exactly when every RTT is set and fewer than 20 RTT samples remain after dropping the
  first. A run of \<^verbatim>\<open>is_PS_modally_distributed\<close> always logs its first line, which
  \<^verbatim>\<open>compare_RTT_IAT\<close> never logs.
\<close>

theorem is_stepping_stone_verdict:
  "(fst (compare_RTT_IAT s) = Inr (Some True) \<longrightarrow>
      is_stepping_stone s = (Inr True, snd (compare_RTT_IAT s)))
   \<and> (fst (compare_RTT_IAT s) = Inr (Some False) \<longrightarrow>
      is_stepping_stone s = (fst (is_PS_modally_distributed s),
                             snd (compare_RTT_IAT s) @ snd (is_PS_modally_distributed s)))
   \<and> (fst (compare_RTT_IAT s) = Inr None \<longrightarrow>
      is_stepping_stone s = (Inr False, snd (compare_RTT_IAT s)))
   \<and> (fst (compare_RTT_IAT s) = Inr None \<longleftrightarrow>
      (\<forall>d \<in> set (ssd_datagrams s). RTT d \<noteq> None) \<and> length (ssd_datagrams s) - 1 < 20)
   \<and> Debug ''Checking if n-modulus distribution.'' \<notin> set (snd (compare_RTT_IAT s))
   \<and> Debug ''Checking if n-modulus distribution.'' \<in> set (snd (is_PS_modally_distributed s))"
proof -
  have 1: "fst (compare_RTT_IAT s) = Inr (Some True) \<longrightarrow>
      is_stepping_stone s = (Inr True, snd (compare_RTT_IAT s))"
    by (cases "compare_RTT_IAT s") (simp add: is_stepping_stone_def)
  have 2: "fst (compare_RTT_IAT s) = Inr (Some False) \<longrightarrow>
      is_stepping_stone s = (fst (is_PS_modally_distributed s),
                             snd (compare_RTT_IAT s) @ snd (is_PS_modally_distributed s))"
    by (cases "compare_RTT_IAT s"; cases "is_PS_modally_distributed s")
       (simp add: is_stepping_stone_def)
  have 3: "fst (compare_RTT_IAT s) = Inr None \<longrightarrow>
      is_stepping_stone s = (Inr False, snd (compare_RTT_IAT s))"
    by (cases "compare_RTT_IAT s") (simp add: is_stepping_stone_def)
  from 1 2 3 inconclusive_iff [of s] compare_RTT_IAT_log [of s]
    is_PS_modally_distributed_log [of s]
  show ?thesis by blast
qed

theorem is_stepping_stone_verdict_witness:
  "fst (compare_RTT_IAT (ssd_init relay_example)) = Inr (Some True)
   \<and> fst (is_stepping_stone (ssd_init relay_example)) = Inr True
   \<and> fst (compare_RTT_IAT (ssd_init spread_example)) = Inr (Some False)
   \<and> fst (is_PS_modally_distributed (ssd_init spread_example)) = Inr False
   \<and> fst (is_stepping_stone (ssd_init spread_example)) = Inr False
   \<and> fst (compare_RTT_IAT (ssd_init few_example)) = Inr None
   \<and> fst (is_stepping_stone (ssd_init few_example)) = Inr False"
proof -
  have a: "fst (compare_RTT_IAT (ssd_init relay_example)) = Inr (Some True)"
    by code_simp
  have b: "fst (compare_RTT_IAT (ssd_init spread_example)) = Inr (Some False)"
    by code_simp
  have b': "fst (is_PS_modally_distributed (ssd_init spread_example)) = Inr False"
    by code_simp
  have c: "fst (compare_RTT_IAT (ssd_init few_example)) = Inr None"
    by code_simp
  from is_stepping_stone_verdict [of "ssd_init relay_example"]
    is_stepping_stone_verdict [of "ssd_init spread_example"]
    is_stepping_stone_verdict [of "ssd_init few_example"] a b b' c
  show ?thesis by simp
qed

text \<open>
  The verdict is not that of \<^verbatim>\<open>is_PS_modally_distributed\<close> when \<^verbatim>\<open>compare_RTT_IAT\<close> is
  inconclusive: for a connection of 22 datagrams with a single payload of the client the
  former would return true, and the verdict is false.
\<close>

theorem inconclusive_counterexample:
  "fst (compare_RTT_IAT (ssd_init few_example)) = Inr None
   \<and> fst (is_PS_modally_distributed (ssd_init few_example)) = Inr True
   \<and> fst (is_stepping_stone (ssd_init few_example)) = Inr False
   \<and> fst (analyse_connection few_example) = Inr False"
  by code_simp

lemma ssd_analyse_single:
  "fst (ssd_analyse [c]) =
     (case fst (analyse_connection c) of Inl e \<Rightarrow> Inl e | Inr v \<Rightarrow> Inr [(c, v)])"
  by (cases "analyse_connection c") (simp add: ssd_analyse_def split: sum.splits)

lemma analyse_connection_few_total:
  "(length (datagrams c) \<le> 20 \<longrightarrow>
      analyse_connection c =
        (Inr False, [Debug_connect (nb c), Debug ''Not enough datagrams in connection'']))
   \<and> (20 < length (datagrams c) \<and> length (ssd_datagrams (ssd_init c)) \<le> 20
       \<and> (\<forall>d \<in> set (ssd_datagrams (ssd_init c)). RTT d \<noteq> None) \<longrightarrow>
      analyse_connection c =
        (Inr False, [Debug_connect (nb c), Debug ''Computation of RTT & IAT similarity'',
                     Debug ''Not enough useful datagrams to make calculation'',
                     Debug_is_stepping_stone False]))"
proof (intro conjI impI)
  assume "length (datagrams c) \<le> 20"
  then show "analyse_connection c =
        (Inr False, [Debug_connect (nb c), Debug ''Not enough datagrams in connection''])"
    by (simp add: analyse_connection_def)
next
  assume a: "20 < length (datagrams c) \<and> length (ssd_datagrams (ssd_init c)) \<le> 20
       \<and> (\<forall>d \<in> set (ssd_datagrams (ssd_init c)). RTT d \<noteq> None)"
  with compare_RTT_IAT_cases [of c]
  have "compare_RTT_IAT (ssd_init c) =
     (Inr None, [Debug ''Computation of RTT & IAT similarity'',
                 Debug ''Not enough useful datagrams to make calculation''])"
    by auto
  then have "is_stepping_stone (ssd_init c) =
     (Inr False, [Debug ''Computation of RTT & IAT similarity'',
                  Debug ''Not enough useful datagrams to make calculation''])"
    by (simp add: is_stepping_stone_def)
  with a show "analyse_connection c =
        (Inr False, [Debug_connect (nb c), Debug ''Computation of RTT & IAT similarity'',
                     Debug ''Not enough useful datagrams to make calculation'',
                     Debug_is_stepping_stone False])"
    by (simp add: analyse_connection_def)
qed

text \<open>
  Claim C2, as the code has it. The test of \<^verbatim>\<open>analyse\<close> is on the number of all the
  datagrams of the connection: with at most 20 of them the verdict false is recorded
  directly, with no sub-test run and no exception, whatever the RTTs. With more than 20
  datagrams of which at most 20 are payloads of the client, all with an RTT,
  \<^verbatim>\<open>compare_RTT_IAT\<close> is run and is inconclusive, \<^verbatim>\<open>is_PS_modally_distributed\<close> is not
  run, and the verdict false is recorded. The verdict recorded is the entry of the
  connection in \<^verbatim>\<open>self.is_stepping_stone\<close>, here for a run of \<^verbatim>\<open>analyse\<close> on that connection.
\<close>

theorem analyse_connection_few:
  "(length (datagrams c) \<le> 20 \<longrightarrow>
      analyse_connection c =
        (Inr False, [Debug_connect (nb c), Debug ''Not enough datagrams in connection''])
      \<and> fst (ssd_analyse [c]) = Inr [(c, False)])
   \<and> (20 < length (datagrams c) \<and> length (ssd_datagrams (ssd_init c)) \<le> 20
       \<and> (\<forall>d \<in> set (ssd_datagrams (ssd_init c)). RTT d \<noteq> None) \<longrightarrow>
      analyse_connection c =
        (Inr False, [Debug_connect (nb c), Debug ''Computation of RTT & IAT similarity'',
                     Debug ''Not enough useful datagrams to make calculation'',
                     Debug_is_stepping_stone False])
      \<and> fst (ssd_analyse [c]) = Inr [(c, False)])"
  using analyse_connection_few_total [of c]
  by (simp add: ssd_analyse_single)

theorem analyse_connection_few_witness:
  "length (datagrams short_example) \<le> 20
   \<and> analyse_connection short_example =
        (Inr False, [Debug_connect 6, Debug ''Not enough datagrams in connection''])
   \<and> 20 < length (datagrams few_example) \<and> length (ssd_datagrams (ssd_init few_example)) \<le> 20
   \<and> map RTT (ssd_datagrams (ssd_init few_example)) = [Some 1000]
   \<and> analyse_connection few_example =
        (Inr False, [Debug_connect 1, Debug ''Computation of RTT & IAT similarity'',
                     Debug ''Not enough useful datagrams to make calculation'',
                     Debug_is_stepping_stone False])
   \<and> fst (ssd_analyse [short_example]) = Inr [(short_example, False)]
   \<and> fst (ssd_analyse [few_example]) = Inr [(few_example, False)]"
proof -
  have a: "length (datagrams short_example) \<le> 20" by code_simp
  have b: "20 < length (datagrams few_example)"
    "length (ssd_datagrams (ssd_init few_example)) \<le> 20" by code_simp+
  have c: "\<forall>d \<in> set (ssd_datagrams (ssd_init few_example)). RTT d \<noteq> None" by code_simp
  have n: "nb short_example = 6" "nb few_example = 1"
    by (simp_all add: short_example_def few_example_def)
  have m: "map RTT (ssd_datagrams (ssd_init few_example)) = [Some 1000]" by code_simp
  from analyse_connection_few [of short_example] analyse_connection_few [of few_example] a b c m
  show ?thesis unfolding n by simp
qed

text \<open>
  With fewer than 20 payloads of the client among more than 20 datagrams, the first
  sub-test is run; and it raises when one of these payloads has no RTT.
\<close>

theorem sub_test_run_counterexample:
  "length (ssd_datagrams (ssd_init few_example)) < 20
   \<and> Debug ''Computation of RTT & IAT similarity'' \<in> set (snd (analyse_connection few_example))
   \<and> length (ssd_datagrams (ssd_init few_unset_example)) < 20
   \<and> fst (analyse_connection few_unset_example) = Inl AttributeError"
  by code_simp

lemma compare_RTT_IAT_errors:
  "fst (compare_RTT_IAT (ssd_init c)) \<noteq> Inl IndexError"
  "fst (compare_RTT_IAT (ssd_init c)) \<noteq> Inl ZeroDivisionError"
  "fst (compare_RTT_IAT (ssd_init c)) \<noteq> Inl KeyError"
  using compare_RTT_IAT_cases [of c] by auto

lemma compare_RTT_IAT_division:
  "Debug_similarity q \<in> set (snd (compare_RTT_IAT (ssd_init c))) \<Longrightarrow>
   20 \<le> length (ssd_datagrams (ssd_init c)) - 1"
  using compare_RTT_IAT_cases [of c] by auto

lemma compare_RTT_IAT_early:
  "length (ssd_datagrams (ssd_init c)) - 1 < 20 \<Longrightarrow>
   fst (compare_RTT_IAT (ssd_init c)) = Inr None
   \<or> fst (compare_RTT_IAT (ssd_init c)) = Inl AttributeError"
  using compare_RTT_IAT_cases [of c] by auto

text \<open>
  Claim C10. For a connection with \<open>n \<ge> 2\<close> payloads of the client, the loop that
  builds \<^verbatim>\<open>IATs\<close> yields \<open>n - 1\<close> elements, as many as \<^verbatim>\<open>RTTs\<close> has after its first
  element is dropped. Hence \<^verbatim>\<open>compare_RTT_IAT\<close> raises neither \<^verbatim>\<open>IndexError\<close> nor
  \<^verbatim>\<open>ZeroDivisionError\<close>; the line logged from the division by \<^verbatim>\<open>len(RTTs)\<close> appears
  only when that length is at least 20, and with a smaller length the method has
  returned \<^verbatim>\<open>None\<close> (or raised on an unset RTT) before any division.
\<close>

theorem compare_RTT_IAT_in_range:
  "(2 \<le> length (ssd_datagrams (ssd_init c)) \<longrightarrow>
      length (IATs_loop (datagrams c) None []) = length (ssd_datagrams (ssd_init c)) - 1
      \<and> (\<forall>rs. RTT_seconds (ssd_datagrams (ssd_init c)) = Inr rs \<longrightarrow>
            length (drop 1 rs) = length (IATs_loop (datagrams c) None [])))
   \<and> fst (compare_RTT_IAT (ssd_init c)) \<noteq> Inl IndexError
   \<and> fst (compare_RTT_IAT (ssd_init c)) \<noteq> Inl ZeroDivisionError
   \<and> ((\<exists>q. Debug_similarity q \<in> set (snd (compare_RTT_IAT (ssd_init c)))) \<longrightarrow>
        20 \<le> length (ssd_datagrams (ssd_init c)) - 1)
   \<and> (length (ssd_datagrams (ssd_init c)) - 1 < 20 \<longrightarrow>
        fst (compare_RTT_IAT (ssd_init c)) = Inr None
        \<or> fst (compare_RTT_IAT (ssd_init c)) = Inl AttributeError)"
proof -
  have "length (drop 1 rs) = length (IATs_loop (datagrams c) None [])"
    if "RTT_seconds (ssd_datagrams (ssd_init c)) = Inr rs" for rs
    using length_RTT_seconds [OF that] by (simp add: length_IATs)
  with length_IATs [of c] compare_RTT_IAT_errors(1,2) [of c]
    compare_RTT_IAT_division [of _ c] compare_RTT_IAT_early [of c]
  show ?thesis by blast
qed

theorem compare_RTT_IAT_in_range_witness:
  "2 \<le> length (ssd_datagrams (ssd_init relay_example))
   \<and> length (ssd_datagrams (ssd_init relay_example)) = 21
   \<and> length (IATs_loop (datagrams relay_example) None []) = 20
   \<and> Debug_similarity 0 \<in> set (snd (compare_RTT_IAT (ssd_init relay_example)))
   \<and> length (ssd_datagrams (ssd_init few_example)) - 1 < 20
   \<and> fst (compare_RTT_IAT (ssd_init few_example)) = Inr None"
proof -
  have a: "length (ssd_datagrams (ssd_init relay_example)) = 21" by code_simp
  have b: "Debug_similarity 0 \<in> set (snd (compare_RTT_IAT (ssd_init relay_example)))"
    by code_simp
  have c: "length (ssd_datagrams (ssd_init few_example)) = 1" by code_simp
  have d: "fst (compare_RTT_IAT (ssd_init few_example)) \<noteq> Inl AttributeError" by code_simp
  from compare_RTT_IAT_in_range [of relay_example] compare_RTT_IAT_in_range [of few_example]
    b d
  show ?thesis unfolding a c by auto
qed

subsection \<open>Re-keying of a group\<close>

text \<open>
  \<^verbatim>\<open>update_average_possible\<close> loops over all the groups, the group \<^verbatim>\<open>closest\<close> itself
  included: an average within \<^verbatim>\<open>IN_GROUP\<close> of the group's own centre blocks the update.
\<close>

lemma own_centre_blocks_update:
  assumes "map_of gr closest = Some ms" "average ms = Inr a" "\<bar>closest - a\<bar> \<le> IN_GROUP"
  shows "update_average_possible closest gr = Inr False"
proof -
  from assms(1) have "(closest, ms) \<in> set gr" by (rule map_of_SomeD)
  then have "closest \<in> fst ` set gr" by force
  with assms show ?thesis
    by (auto simp add: update_average_possible_def list_all_iff)
qed

lemma closest_loop_Some:
  "closest_loop payload gs cl = Some c \<Longrightarrow>
   cl = Some c \<or> (c \<in> set gs \<and> \<bar>c - payload\<bar> \<le> IN_GROUP)"
  by (induction gs arbitrary: cl) (auto split: if_splits)

lemma closest_group_Some:
  assumes "closest_group payload gr = Some c"
  shows "c \<in> fst ` set gr" "\<bar>c - payload\<bar> \<le> IN_GROUP"
  using closest_loop_Some [of payload "map fst gr" None c] assms
  by (auto simp add: closest_group_def)

lemma sum_list_bounds:
  "\<forall>m \<in> set ms. lo \<le> m \<and> m \<le> hi \<Longrightarrow>
   int (length ms) * lo \<le> sum_list ms \<and> sum_list ms \<le> int (length ms) * hi"
  by (induction ms) (auto simp add: algebra_simps)

lemma average_bounds:
  assumes "ms \<noteq> []" "\<forall>m \<in> set ms. lo \<le> m \<and> m \<le> hi"
  shows "\<exists>a. average ms = Inr a \<and> lo \<le> a \<and> a \<le> hi"
proof -
  let ?n = "int (length ms)"
  from assms(1) have n: "0 < ?n" by simp
  from sum_list_bounds [OF assms(2)]
  have b: "?n * lo \<le> sum_list ms" "sum_list ms \<le> ?n * hi" by simp_all
  from b(1) n have "(?n * lo) div ?n \<le> sum_list ms div ?n" by (intro zdiv_mono1) simp_all
  with n have lo: "lo \<le> sum_list ms div ?n" by simp
  from b(2) n have "sum_list ms div ?n \<le> (?n * hi) div ?n" by (intro zdiv_mono1) simp_all
  with n have hi: "sum_list ms div ?n \<le> hi" by simp
  from assms(1) lo hi show ?thesis by (simp add: average_def)
qed

lemma add_payload_centred:
  assumes "centred gr"
  shows "\<exists>gr'. add_payload payload gr = Inr gr' \<and> centred gr'
           \<and> (map_of gr' = (map_of gr)(payload \<mapsto> [payload]) \<and> closest_group payload gr = None
              \<or> (\<exists>c ms. closest_group payload gr = Some c \<and> map_of gr c = Some ms
                    \<and> map_of gr' = (map_of gr)(c \<mapsto> ms @ [payload])))"
proof (cases "closest_group payload gr")
  case None
  then have "add_payload payload gr = Inr (AList.update payload [payload] gr)"
    by (simp add: add_payload_def)
  moreover from assms have "centred (AList.update payload [payload] gr)"
    by (simp add: centred_def update_conv' IN_GROUP_def)
  ultimately show ?thesis using None by (simp add: update_conv')
next
  case (Some c)
  then have c: "c \<in> fst ` set gr" "\<bar>c - payload\<bar> \<le> IN_GROUP"
    by (rule closest_group_Some)+
  then obtain ms where ms: "map_of gr c = Some ms"
    by (cases "map_of gr c") (auto simp add: map_of_eq_None_iff)
  with assms have good: "ms \<noteq> []" "hd ms = c" "\<forall>m \<in> set ms. \<bar>c - m\<bar> \<le> IN_GROUP"
    by (auto simp add: centred_def)
  let ?gr1 = "AList.update c (ms @ [payload]) gr"
  have m1: "map_of ?gr1 c = Some (ms @ [payload])" by (simp add: update_conv')
  from good(3) c(2) have "\<forall>m \<in> set (ms @ [payload]). c - IN_GROUP \<le> m \<and> m \<le> c + IN_GROUP"
    by auto
  then obtain a where a: "average (ms @ [payload]) = Inr a" "c - IN_GROUP \<le> a" "a \<le> c + IN_GROUP"
    using average_bounds [of "ms @ [payload]" "c - IN_GROUP" "c + IN_GROUP"] by auto
  then have "\<bar>c - a\<bar> \<le> IN_GROUP" by simp
  with m1 a(1) have "update_average_possible c ?gr1 = Inr False"
    by (rule own_centre_blocks_update)
  with Some ms have res: "add_payload payload gr = Inr ?gr1"
    by (simp add: add_payload_def)
  from assms good c(2) have "centred ?gr1"
    by (simp add: centred_def update_conv')
  with res Some ms show ?thesis by (simp add: update_conv')
qed

lemma cluster_centred:
  "centred gr \<Longrightarrow> \<exists>gr'. cluster payloads gr = Inr gr' \<and> centred gr'"
proof (induction payloads arbitrary: gr)
  case Nil
  then show ?case by simp
next
  case (Cons payload payloads)
  from add_payload_centred [OF Cons.prems, of payload]
  obtain gr1 where "add_payload payload gr = Inr gr1" "centred gr1" by blast
  with Cons.IH [of gr1] show ?case by simp
qed

text \<open>
  So the clustering never re-keys a group: whatever the payload lengths, it ends without
  an exception and every group is still under the centre it was created with, its first
  payload length, within \<^verbatim>\<open>IN_GROUP\<close> of all its members.
\<close>

lemma cluster_never_rekeys:
  "\<exists>gr. cluster payloads [] = Inr gr \<and> centred gr"
  by (rule cluster_centred) (simp add: centred_def)

text \<open>
  Claim C3 on a connection of 21 payloads of the client, of lengths 10, 13 and then 10
  nineteen times, which reaches the clustering. The payload 13 joins the group of
  centre 10; the new average 11 is within 3 of no other centre (there is none), and the
  group stays under the key 10, there and until the end.
\<close>

theorem rekey_example:
  "take 2 (map payloadLen (ssd_datagrams (ssd_init rekey_example_connection))) = [10, 13]
   \<and> closest_group 13 [(10, [10])] = Some 10
   \<and> average [10, 13] = Inr 11
   \<and> update_average_possible 10 [(10, [10, 13])] = Inr False
   \<and> add_payload 13 [(10, [10])] = Inr [(10, [10, 13])]
   \<and> cluster [10, 13] [] = Inr [(10, [10, 13])]
   \<and> cluster (map payloadLen (ssd_datagrams (ssd_init rekey_example_connection))) []
       = Inr [(10, 10 # 13 # replicate 19 10)]
   \<and> fst (compare_RTT_IAT (ssd_init rekey_example_connection)) = Inr (Some False)
   \<and> fst (analyse_connection rekey_example_connection) = Inr True"
  by code_simp

end
